theory Spec2Isabelle
  imports Main "HOL-Library.Char_ord" "HOL-Library.List_Lexorder"
begin

section \<open>Titon.TypeAhead: data model\<close>

text \<open>
  The widget of \<^verbatim>\<open>src/js/modules/TypeAhead.js\<close> is a MooTools class. Its own fields
  (\<^verbatim>\<open>index\<close>, \<^verbatim>\<open>items\<close>, \<^verbatim>\<open>term\<close>, \<^verbatim>\<open>timer\<close>) and the fields it inherits from
  \<^verbatim>\<open>Titon.Module\<close> (\<^verbatim>\<open>cache\<close>, the dropdown element) become one record that every method
  takes and returns. Items are strings, a string is a list of bytes, and letter case is
  ASCII letter case.

  Besides the fields of the class the record carries
  \<^item> the part of the DOM the methods touch: whether the dropdown is shown, the value
    of the input, the markup of the rendered rows and the row carrying the active class;
  \<^item> the timers of \<^verbatim>\<open>window.setTimeout\<close> that have not fired yet, each with the term
    its closure captured;
  \<^item> four logs that only record what has been called: the events the class fires, the
    accesses to the configured source, the calls of the matcher and the calls of
    \<^verbatim>\<open>highlight\<close>;
  \<^item> what stands behind the cache object: \<open>proto\<close> is the array the object has been given
    as its prototype, if any, and \<open>object_methods\<close> and \<open>array_methods\<close> give, for the
    name of a method that \<^verbatim>\<open>Object.prototype\<close> defines, or that an array inherits, the
    number of its declared parameters. The class never changes these two tables; the
    engine and the libraries that are loaded decide what they hold.

  The constants keep the names of the methods; \<open>cycle\<close>, \<open>lookup_keyup\<close> and
  \<open>position\<close> stand for \<^verbatim>\<open>_cycle\<close>, \<^verbatim>\<open>_lookup\<close> and \<^verbatim>\<open>_position\<close>, \<open>lookup_timeout\<close> for
  the function \<^verbatim>\<open>lookup\<close> hands to the timer, and \<open>sort_items\<close> for \<^verbatim>\<open>sort\<close>. The
  constructor with its prefetch request, the registry of instances, the coordinates of
  the dropdown and the option \<^verbatim>\<open>contentElement\<close> are left out.
\<close>

datatype event = Show | Reset | Select "string option" int

datatype access = ArrayRead | FunctionCall | Fetch string string

datatype error = InvalidSourceType | TypeError

datatype key = Up | Down | Tab | Enter | Esc | OtherKey

text \<open>
  What a read of a property of the cache object can find besides \<^verbatim>\<open>undefined\<close>: an
  array of items, a string, a number, a function (with the number of its declared
  parameters, its \<^verbatim>\<open>length\<close>) or another object.
\<close>

datatype property =
    PArray "string list"
  | PString string
  | PNumber nat
  | PFunction nat
  | PObject

record state =
  "term" :: string
  index :: int
  items :: "string list"
  timer :: "nat option"
  cache :: "string \<rightharpoonup> string list"
  visible :: bool
  input_value :: string
  rows :: "string list"
  active :: "nat option"
  pending :: "(nat \<times> string) list"
  next_timer :: nat
  fired :: "event list"
  accessed :: "access list"
  matched :: "(string \<times> string) list"
  highlighted :: "string list"
  proto :: "string list option"
  object_methods :: "string \<Rightarrow> nat option"
  array_methods :: "string \<Rightarrow> nat option"

text \<open>
  What a source function can do when it is called: throw, return a falsy value
  (\<^verbatim>\<open>null\<close>, \<^verbatim>\<open>undefined\<close>, \<^verbatim>\<open>false\<close>, \<^verbatim>\<open>0\<close>, \<^verbatim>\<open>''\<close>) or return an array of items. An
  array is truthy in JavaScript also when it is empty.
\<close>

datatype response = Throws | Falsy | Items "string list"

datatype jsval = Str string | Widget state

text \<open>
  \<^verbatim>\<open>typeOf(options.source)\<close> is \<^verbatim>\<open>'array'\<close>, \<^verbatim>\<open>'string'\<close>, \<^verbatim>\<open>'function'\<close> or anything
  else. A function is applied to its argument list and to the object bound to
  \<^verbatim>\<open>this\<close>.
\<close>

datatype source =
    SrcArray "string list"
  | SrcString string
  | SrcFunction "jsval list \<Rightarrow> state \<Rightarrow> response"
  | SrcOther

text \<open>
  The options after \<^verbatim>\<open>initialize\<close>, which replaces a \<^verbatim>\<open>null\<close> sorter and matcher by
  \<^verbatim>\<open>sort\<close> and \<^verbatim>\<open>match\<close>. \<open>None\<close> stands for a value whose \<^verbatim>\<open>typeOf\<close> is not
  \<^verbatim>\<open>'function'\<close>.
\<close>

record options =
  minLength :: int
  itemLimit :: int
  throttle :: int
  source :: source
  sorter :: "(string list \<Rightarrow> string list) option"
  matcher :: "(string \<Rightarrow> string \<Rightarrow> bool) option"

section \<open>Collaborators\<close>

text \<open>
  The base class \<^verbatim>\<open>Titon.Module\<close> is not part of the source file. The four methods of
  it that the class calls are modelled by what the spec says of the two capabilities it
  takes for granted: a UI element that can be shown and hidden, and an event bus that
  fires named events.
\<close>

text \<open>
  Modelled from the spec: \<^verbatim>\<open>Titon.Module.hide\<close> is missing; "hide dropdown" makes the
  dropdown invisible and touches nothing else.
\<close>

definition hide :: "state \<Rightarrow> state" where
  "hide st = st\<lparr>visible := False\<rparr>"

text \<open>
  Modelled from the spec: \<^verbatim>\<open>Titon.Module.showElement\<close> is missing; "show it" makes the
  dropdown visible.
\<close>

definition showElement :: "state \<Rightarrow> state" where
  "showElement st = st\<lparr>visible := True\<rparr>"

text \<open>
  Modelled from the spec: \<^verbatim>\<open>Titon.Module.isVisible\<close> is missing; it tells whether the
  dropdown is visible.
\<close>

definition isVisible :: "state \<Rightarrow> bool" where
  "isVisible st = visible st"

text \<open>
  Modelled from the spec: \<^verbatim>\<open>fireEvent\<close> of the event bus is missing; the fired event is
  appended to the log.
\<close>

definition fireEvent :: "event \<Rightarrow> state \<Rightarrow> state" where
  "fireEvent e st = st\<lparr>fired := fired st @ [e]\<rparr>"

text \<open>MooTools \<^verbatim>\<open>Number.limit(min, max)\<close> is \<^verbatim>\<open>Math.min(max, Math.max(min, this))\<close>.\<close>

definition limit :: "int \<Rightarrow> int \<Rightarrow> int \<Rightarrow> int" where
  "limit n lo hi = min hi (max lo n)"

text \<open>
  \<^verbatim>\<open>xs[i]\<close> on a JavaScript array: the element, or \<^verbatim>\<open>undefined\<close> (\<open>None\<close>) when \<open>i\<close> is
  not an index of the array.
\<close>

definition js_nth :: "'a list \<Rightarrow> int \<Rightarrow> 'a option" where
  "js_nth xs i = (if 0 \<le> i \<and> i < int (length xs) then Some (xs ! nat i) else None)"

text \<open>
  \<^verbatim>\<open>window.setTimeout\<close> returns a fresh handle and keeps the closure until it fires;
  \<^verbatim>\<open>window.clearTimeout\<close> drops the closure with the given handle and ignores
  \<^verbatim>\<open>null\<close>.
\<close>

definition setTimeout :: "string \<Rightarrow> state \<Rightarrow> state" where
  "setTimeout t st =
     st\<lparr>timer := Some (next_timer st),
        pending := pending st @ [(next_timer st, t)],
        next_timer := Suc (next_timer st)\<rparr>"

definition clearTimeout :: "nat option \<Rightarrow> state \<Rightarrow> state" where
  "clearTimeout h st =
     (case h of
        None \<Rightarrow> st
      | Some i \<Rightarrow> st\<lparr>pending := filter (\<lambda>p. fst p \<noteq> i) (pending st)\<rparr>)"

section \<open>The cache object\<close>

text \<open>
  Modelled from the spec: the declaration of \<^verbatim>\<open>this.cache\<close> in \<^verbatim>\<open>Titon.Module\<close> is
  missing; "mapping from cache key to a previously resolved item sequence" and the
  reads and writes \<^verbatim>\<open>this.cache[key]\<close> of the class make it a plain object, without
  properties of its own at first.

  \<open>cache\<close> holds what has been assigned under a key. A read of a key under which
  nothing has been assigned goes to the prototype of the object: at first
  \<^verbatim>\<open>Object.prototype\<close>, whose methods are functions and whose \<^verbatim>\<open>__proto__\<close> gives the
  prototype itself, an object. An assignment to \<^verbatim>\<open>__proto__\<close> makes the assigned array
  the prototype; then a read finds the elements of the array under their indices, its
  length under \<^verbatim>\<open>length\<close> and the methods an array inherits.
\<close>

definition digit :: "nat \<Rightarrow> char" where
  "digit d = char_of (48 + d)"

function decimal :: "nat \<Rightarrow> string" where
  "decimal n = (if n < 10 then [digit n] else decimal (n div 10) @ [digit (n mod 10)])"
  by pat_completeness auto
termination
  by (relation "measure (\<lambda>n. n)") auto

definition array_index :: "string list \<Rightarrow> string \<Rightarrow> nat option" where
  "array_index xs k = find (\<lambda>i. decimal i = k) [0..<length xs]"

definition inherited :: "state \<Rightarrow> string \<Rightarrow> property option" where
  "inherited st k =
     (case proto st of
        None \<Rightarrow>
          if k = ''__proto__'' then Some PObject
          else map_option PFunction (object_methods st k)
      | Some xs \<Rightarrow>
          if k = ''__proto__'' then Some (PArray xs)
          else if k = ''length'' then Some (PNumber (length xs))
          else (case array_index xs k of
                  Some i \<Rightarrow> Some (PString (xs ! i))
                | None \<Rightarrow> map_option PFunction (array_methods st k)))"

definition cache_read :: "state \<Rightarrow> string \<Rightarrow> property option" where
  "cache_read st k =
     (case cache st k of Some xs \<Rightarrow> Some (PArray xs) | None \<Rightarrow> inherited st k)"

text \<open>
  The truth value of a value in a condition: every array, function and object is true,
  the empty string and \<^verbatim>\<open>0\<close> are false. \<open>cache_hit st k\<close> is the value of
  \<^verbatim>\<open>this.cache[k]\<close> when the test \<^verbatim>\<open>if (this.cache[k])\<close> succeeds.
\<close>

definition truthy :: "property \<Rightarrow> bool" where
  "truthy v =
     (case v of
        PArray xs \<Rightarrow> True
      | PString s \<Rightarrow> s \<noteq> []
      | PNumber n \<Rightarrow> n \<noteq> 0
      | PFunction n \<Rightarrow> True
      | PObject \<Rightarrow> True)"

definition cache_hit :: "state \<Rightarrow> string \<Rightarrow> property option" where
  "cache_hit st k =
     (case cache_read st k of
        None \<Rightarrow> None
      | Some v \<Rightarrow> if truthy v then Some v else None)"

text \<open>
  The methods of \<^verbatim>\<open>Object.prototype\<close> and, for an array, those of \<^verbatim>\<open>Array.prototype\<close>
  with the ones it passes on from \<^verbatim>\<open>Object.prototype\<close>, as ECMAScript 5 has them, each
  with its \<^verbatim>\<open>length\<close>. They are the tables of the example states.
\<close>

definition object_prototype :: "string \<Rightarrow> nat option" where
  "object_prototype =
     map_of [(''constructor'', 1), (''toString'', 0), (''toLocaleString'', 0),
             (''valueOf'', 0), (''hasOwnProperty'', 1), (''isPrototypeOf'', 1),
             (''propertyIsEnumerable'', 1), (''__defineGetter__'', 2),
             (''__defineSetter__'', 2), (''__lookupGetter__'', 1),
             (''__lookupSetter__'', 1)]"

definition array_prototype :: "string \<Rightarrow> nat option" where
  "array_prototype =
     map_of [(''constructor'', 1), (''toString'', 0), (''toLocaleString'', 0),
             (''concat'', 1), (''join'', 1), (''pop'', 0), (''push'', 1), (''reverse'', 0),
             (''shift'', 0), (''slice'', 2), (''sort'', 1), (''splice'', 2),
             (''unshift'', 1), (''indexOf'', 1), (''lastIndexOf'', 1), (''every'', 1),
             (''some'', 1), (''forEach'', 1), (''map'', 1), (''filter'', 1),
             (''reduce'', 1), (''reduceRight'', 1),
             (''valueOf'', 0), (''hasOwnProperty'', 1), (''isPrototypeOf'', 1),
             (''propertyIsEnumerable'', 1), (''__defineGetter__'', 2),
             (''__defineSetter__'', 2), (''__lookupGetter__'', 1),
             (''__lookupSetter__'', 1)]"

section \<open>Strings\<close>

definition lower :: "char \<Rightarrow> char" where
  "lower c =
     (if 65 \<le> (of_char c :: nat) \<and> (of_char c :: nat) \<le> 90
      then char_of ((of_char c :: nat) + 32) else c)"

definition toLowerCase :: "string \<Rightarrow> string" where
  "toLowerCase s = map lower s"

fun starts_with :: "string \<Rightarrow> string \<Rightarrow> bool" where
  "starts_with [] s = True"
| "starts_with (p # ps) [] = False"
| "starts_with (p # ps) (c # cs) = (p = c \<and> starts_with ps cs)"

text \<open>\<^verbatim>\<open>s.indexOf(p) >= 0\<close>: \<open>p\<close> occurs in \<open>s\<close>; the empty string occurs in every string.\<close>

fun occurs :: "string \<Rightarrow> string \<Rightarrow> bool" where
  "occurs p [] = (p = [])"
| "occurs p (c # cs) = (starts_with p (c # cs) \<or> occurs p cs)"

text \<open>\<^verbatim>\<open>String.trim\<close> on the ASCII white space characters.\<close>

definition is_space :: "char \<Rightarrow> bool" where
  "is_space c = ((of_char c :: nat) \<in> {9, 10, 11, 12, 13, 32})"

definition trim :: "string \<Rightarrow> string" where
  "trim s = rev (dropWhile is_space (rev (dropWhile is_space s)))"

section \<open>The methods of the class\<close>

subsection \<open>\<^verbatim>\<open>highlight\<close>\<close>

text \<open>
  \<^verbatim>\<open>this.term.replace(/[\-\[\]{}()*+?.,\\^$|#]/g, "\\$&")\<close> puts a backslash before
  every character of the class; \<^verbatim>\<open>.split(" ")\<close> cuts at every single space and always
  returns at least one piece.
\<close>

definition backslash :: char where
  "backslash = CHR 0x5C"

definition metachars :: string where
  "metachars = ''-[]{}()*+?.,'' @ [backslash] @ ''^$|#''"

definition escape :: "string \<Rightarrow> string" where
  "escape s = concat (map (\<lambda>c. if c \<in> set metachars then [backslash, c] else [c]) s)"

fun split_space :: "string \<Rightarrow> string list" where
  "split_space [] = [[]]"
| "split_space (c # cs) =
     (if c = CHR '' '' then [] # split_space cs
      else (case split_space cs of
              [] \<Rightarrow> [[c]]
            | p # ps \<Rightarrow> (c # p) # ps))"

text \<open>
  \<^verbatim>\<open>new RegExp(t, "ig")\<close> for the patterns \<^verbatim>\<open>escape\<close> produces: a backslash followed
  by a character matches that character, any other character matches itself, so the
  pattern matches one literal string, read off by \<open>regexp_literal\<close>, up to letter case.
\<close>

fun regexp_literal :: "string \<Rightarrow> string" where
  "regexp_literal [] = []"
| "regexp_literal [c] = [c]"
| "regexp_literal (c # d # cs) =
     (if c = backslash then d # regexp_literal cs else c # regexp_literal (d # cs))"

definition matches_at :: "string \<Rightarrow> string \<Rightarrow> bool" where
  "matches_at p s = (p \<noteq> [] \<and> starts_with (toLowerCase p) (toLowerCase s))"

definition open_marker :: string where
  \<open>open_marker = ''<span class="highlight">''\<close>

definition close_marker :: string where
  "close_marker = ''</span>''"

text \<open>
  \<^verbatim>\<open>item.replace(regexp, function(match) {...})\<close> with the \<^verbatim>\<open>g\<close> flag: the matches
  are found from left to right, the search goes on behind each match, and each match is
  replaced by what the function returns for it.
\<close>

function replace_matches :: "string \<Rightarrow> string \<Rightarrow> string" where
  "replace_matches p [] = []"
| "replace_matches p (c # cs) =
     (if matches_at p (c # cs)
      then open_marker @ take (length p) (c # cs) @ close_marker
             @ replace_matches p (drop (length p) (c # cs))
      else c # replace_matches p cs)"
  by pat_completeness auto
termination
  by (relation "measure (\<lambda>(p, s). length s)") (auto simp: matches_at_def)

text \<open>
  The loop \<^verbatim>\<open>for (var i = 0, t; t = terms[i]; i++)\<close> ends at the end of the array and
  at the first empty piece, whichever comes first.
\<close>

fun highlight_loop :: "string list \<Rightarrow> string \<Rightarrow> string" where
  "highlight_loop [] item = item"
| "highlight_loop (t # ts) item =
     (if t = [] then item
      else highlight_loop ts (replace_matches (regexp_literal t) item))"

definition highlight :: "state \<Rightarrow> string \<Rightarrow> string" where
  "highlight st item = highlight_loop (split_space (escape (term st))) item"

subsection \<open>\<^verbatim>\<open>match\<close> and \<^verbatim>\<open>sort\<close>\<close>

definition match :: "string \<Rightarrow> string \<Rightarrow> bool" where
  "match item t = occurs (toLowerCase t) (toLowerCase item)"

text \<open>
  \<^verbatim>\<open>items.sort()\<close> orders strings by their code units, a proper prefix before the
  longer string. It sorts the array in place; the model returns the sorted list.
\<close>

definition sort_items :: "string list \<Rightarrow> string list" where
  "sort_items xs = sort xs"

definition default_options :: options where
  "default_options =
     \<lparr>minLength = 1, itemLimit = 15, throttle = 250, source = SrcArray [],
      sorter = Some sort_items, matcher = Some match\<rparr>"

definition initial :: state where
  "initial =
     \<lparr>term = [], index = -1, items = [], timer = None, cache = Map.empty,
      visible = False, input_value = [], rows = [], active = None, pending = [],
      next_timer = 0, fired = [], accessed = [], matched = [], highlighted = [],
      proto = None, object_methods = object_prototype, array_methods = array_prototype\<rparr>"

subsection \<open>\<^verbatim>\<open>process\<close>\<close>

text \<open>
  The loop of \<^verbatim>\<open>process\<close> over the sorted items. \<open>c\<close> counts the items kept so far and
  \<open>ul\<close> is the list element under construction, one entry per \<^verbatim>\<open>li\<close>, holding the
  markup of its link. The limit is tested before the matcher is called, and
  \<^verbatim>\<open>highlight\<close> is called for the items that are kept only.
\<close>

fun process_loop :: "options \<Rightarrow> string list \<Rightarrow> int \<Rightarrow> string list \<Rightarrow> state \<Rightarrow> string list \<times> state" where
  "process_loop opts [] c ul st = (ul, st)"
| "process_loop opts (item # rest) c ul st =
     (if c \<ge> itemLimit opts then (ul, st)
      else
        (case matcher opts of
           Some m \<Rightarrow>
             (let st1 = st\<lparr>matched := matched st @ [(item, term st)]\<rparr> in
              if \<not> m item (term st) then process_loop opts rest c ul st1
              else process_loop opts rest (c + 1) (ul @ [highlight st1 item])
                     (st1\<lparr>highlighted := highlighted st1 @ [item],
                          items := items st1 @ [item]\<rparr>))
         | None \<Rightarrow>
             process_loop opts rest (c + 1) (ul @ [highlight st item])
               (st\<lparr>highlighted := highlighted st @ [item],
                   items := items st @ [item]\<rparr>)))"

definition position :: "state \<Rightarrow> state" where
  "position st = (if items st = [] then hide st else showElement (hide st))"

text \<open>
  \<^verbatim>\<open>process\<close>: the early return, the reset of \<^verbatim>\<open>items\<close> and \<^verbatim>\<open>index\<close>, the sorter when it
  is a function, the loop, the new content of the dropdown, the assignment to the cache
  under the current term (which makes the items the prototype of the cache when the
  term is \<^verbatim>\<open>__proto__\<close>), \<^verbatim>\<open>_position\<close> and the \<^verbatim>\<open>show\<close> event.
\<close>

definition process :: "options \<Rightarrow> state \<Rightarrow> string list \<Rightarrow> state" where
  "process opts st raw =
     (if term st = [] \<or> raw = [] then hide st
      else
        (let st1 = st\<lparr>items := [], index := -1\<rparr>;
             sorted = (case sorter opts of Some srt \<Rightarrow> srt raw | None \<Rightarrow> raw);
             (ul, st2) = process_loop opts sorted 0 [] st1;
             st3 = st2\<lparr>rows := ul, active := None\<rparr>;
             st4 = st3\<lparr>cache := (cache st3)(term st3 \<mapsto> items st3),
                       proto := (if term st3 = ''__proto__'' then Some (items st3)
                                 else proto st3)\<rparr>
         in fireEvent Show (position st4)))"

text \<open>
  \<^verbatim>\<open>process\<close> is also called with what a read of the cache has found, which need not be
  an array. \<open>process\<close> above is the method on an array; \<open>process_any\<close> is the method
  on any value.
  \<^item> The \<^verbatim>\<open>length\<close> of a number or of an object without that property is
    \<^verbatim>\<open>undefined\<close>, and that of a function is the number of its parameters; when it is
    \<^verbatim>\<open>undefined\<close> or \<^verbatim>\<open>0\<close> the method hides the dropdown and returns.
  \<^item> Behind the early return, a sorter that is a function is called with the value. A
    sorter is a function on arrays: like \<^verbatim>\<open>sort\<close>, which calls \<^verbatim>\<open>items.sort()\<close>, it throws
    a \<^verbatim>\<open>TypeError\<close> on a string or a function.
  \<^item> Without such a sorter the loop reads \<^verbatim>\<open>items[i]\<close>. For a string these are its
    characters, which are matched, highlighted and kept like items.
  \<^item> For a function they are \<^verbatim>\<open>undefined\<close>. When the limit is not positive the loop
    stops before it reads one, and the method goes on with no item: it empties the
    dropdown, stores the empty list under the term, positions and fires \<^verbatim>\<open>show\<close>.
    Otherwise the first one reaches the matcher, which throws on it as \<^verbatim>\<open>match\<close> does
    with \<^verbatim>\<open>item.toLowerCase()\<close>, or, without a matcher, \<^verbatim>\<open>highlight\<close>, which throws with
    \<^verbatim>\<open>item.replace\<close> at the first sub-term of the term.
\<close>

definition process_any :: "options \<Rightarrow> state \<Rightarrow> property \<Rightarrow> error + state" where
  "process_any opts st v =
     (case v of
        PArray xs \<Rightarrow> Inr (process opts st xs)
      | PString s \<Rightarrow>
          (if term st = [] \<or> s = [] then Inr (hide st)
           else (case sorter opts of
                   Some srt \<Rightarrow> Inl TypeError
                 | None \<Rightarrow> Inr (process opts st (map (\<lambda>c. [c]) s))))
      | PNumber n \<Rightarrow> Inr (hide st)
      | PFunction n \<Rightarrow>
          (if term st = [] \<or> n = 0 then Inr (hide st)
           else (case sorter opts of
                   Some srt \<Rightarrow> Inl TypeError
                 | None \<Rightarrow>
                     if 0 \<ge> itemLimit opts
                     then
                       (let st1 = st\<lparr>items := [], index := -1\<rparr>;
                            st3 = st1\<lparr>rows := [], active := None\<rparr>;
                            st4 = st3\<lparr>cache := (cache st3)(term st3 \<mapsto> []),
                                      proto := (if term st3 = ''__proto__'' then Some []
                                                else proto st3)\<rparr>
                        in Inr (fireEvent Show (position st4)))
                     else Inl TypeError))
      | PObject \<Rightarrow> Inr (hide st))"

subsection \<open>\<^verbatim>\<open>lookup\<close>\<close>

text \<open>
  \<^verbatim>\<open>Function.attempt(args, bind)\<close> of MooTools applies the function to \<open>args\<close> with
  \<^verbatim>\<open>this\<close> bound to \<open>bind\<close> and returns \<^verbatim>\<open>null\<close> when the function throws.
\<close>

definition attempt :: "(jsval list \<Rightarrow> state \<Rightarrow> response) \<Rightarrow> jsval list \<Rightarrow> state \<Rightarrow> response" where
  "attempt f args this = (case f args this of Throws \<Rightarrow> Falsy | r \<Rightarrow> r)"

text \<open>
  The function given to \<^verbatim>\<open>window.setTimeout\<close> in \<^verbatim>\<open>lookup\<close>; \<open>t\<close> is the parameter
  \<^verbatim>\<open>term\<close> of \<^verbatim>\<open>lookup\<close> that the closure captured. The test of the cache succeeds on
  whatever truthy value the read finds, a stored list or an inherited property, and
  \<^verbatim>\<open>process\<close> is called with it. The request of a string source is recorded as an
  access; its answer arrives later, as a call of \<^verbatim>\<open>process\<close>.
\<close>

definition lookup_timeout :: "options \<Rightarrow> state \<Rightarrow> string \<Rightarrow> error + state" where
  "lookup_timeout opts st t =
     (case cache_hit st t of
        Some cached \<Rightarrow> process_any opts st cached
      | None \<Rightarrow>
          (case source opts of
             SrcString url \<Rightarrow>
               (case cache_hit st url of
                  Some cached \<Rightarrow> process_any opts st cached
                | None \<Rightarrow> Inr (st\<lparr>accessed := accessed st @ [Fetch url t]\<rparr>))
           | SrcArray xs \<Rightarrow>
               Inr (process opts (st\<lparr>accessed := accessed st @ [ArrayRead]\<rparr>) xs)
           | SrcFunction f \<Rightarrow>
               (let st1 = st\<lparr>accessed := accessed st @ [FunctionCall]\<rparr> in
                case attempt f [] st of
                  Items xs \<Rightarrow> Inr (process opts st1 xs)
                | _ \<Rightarrow> Inr st1)
           | SrcOther \<Rightarrow> Inl InvalidSourceType))"

text \<open>
  \<^verbatim>\<open>lookup\<close> itself stores the term and the handle of the new timer and returns; \<open>Inr\<close>
  is a call that returns, \<open>Inl\<close> one that throws.
\<close>

definition lookup :: "options \<Rightarrow> state \<Rightarrow> string \<Rightarrow> error + state" where
  "lookup opts st t = Inr (setTimeout t (st\<lparr>term := t\<rparr>))"

subsection \<open>\<^verbatim>\<open>_cycle\<close> and \<^verbatim>\<open>_lookup\<close>\<close>

text \<open>
  The end of \<^verbatim>\<open>_cycle\<close>: the active class is taken from every row and, when the index is
  not negative, given to the row at the index, and the item at the index becomes the
  value of the input. \<^verbatim>\<open>rows[this.index]\<close> is \<^verbatim>\<open>undefined\<close> when there is no such row,
  and calling \<^verbatim>\<open>addClass\<close> on it throws.
\<close>

definition select_row :: "state \<Rightarrow> error + state" where
  "select_row st =
     (if index st \<ge> 0 then
        (if index st < int (length (rows st)) then
           Inr (st\<lparr>active := Some (nat (index st)),
                   input_value := (case js_nth (items st) (index st) of
                                     Some item \<Rightarrow> item
                                   | None \<Rightarrow> ''undefined'')\<rparr>)
         else Inl TypeError)
      else Inr (st\<lparr>active := None\<rparr>))"

definition cycle :: "options \<Rightarrow> state \<Rightarrow> key \<Rightarrow> error + state" where
  "cycle opts st k =
     (let len = limit (int (length (items st))) 0 (itemLimit opts) in
      if len = 0 \<or> \<not> isVisible st then Inr st
      else
        (case k of
           Up \<Rightarrow>
             select_row (st\<lparr>index := (if index st - 1 < 0 then len - 1 else index st - 1)\<rparr>)
         | Down \<Rightarrow>
             select_row (st\<lparr>index := (if index st + 1 \<ge> len then 0 else index st + 1)\<rparr>)
         | Tab \<Rightarrow>
             select_row (hide (fireEvent (Select (js_nth (items st) 0) 0) (st\<lparr>index := 0\<rparr>)))
         | Enter \<Rightarrow>
             select_row (hide (fireEvent (Select (js_nth (items st) (index st)) (index st)) st))
         | Esc \<Rightarrow>
             select_row (hide (fireEvent Reset (st\<lparr>index := -1, input_value := term st\<rparr>)))
         | OtherKey \<Rightarrow> Inr st))"

text \<open>
  \<^verbatim>\<open>_lookup\<close>, the handler of \<^verbatim>\<open>keyup\<close>; the value of the input is read from the state.
\<close>

definition lookup_keyup :: "options \<Rightarrow> state \<Rightarrow> key \<Rightarrow> error + state" where
  "lookup_keyup opts st k =
     (if k \<in> {Up, Down, Esc, Tab, Enter} then Inr st
      else
        (let st1 = clearTimeout (timer st) st;
             t = trim (input_value st1)
         in if int (length t) < minLength opts then Inr (hide st1)
            else lookup opts st1 t))"

section \<open>Notions of the specification\<close>

text \<open>
  \<open>after f r\<close> reads the field \<open>f\<close> of the state a call returned. \<open>press opts k n st\<close>:
  the key \<open>k\<close> goes down \<open>n\<close> times; a press that throws ends the run.
\<close>

definition after :: "(state \<Rightarrow> 'a) \<Rightarrow> error + state \<Rightarrow> error + 'a" where
  "after f r = map_sum id f r"

fun press :: "options \<Rightarrow> key \<Rightarrow> nat \<Rightarrow> state \<Rightarrow> error + state" where
  "press opts k 0 st = Inr st"
| "press opts k (Suc n) st =
     (case cycle opts st k of Inl e \<Rightarrow> Inl e | Inr st' \<Rightarrow> press opts k n st')"

text \<open>
  A lookup whose timer fires before anything else happens: the call of \<^verbatim>\<open>lookup\<close>,
  then the closure, whose handle is no longer pending.
\<close>

definition lookup_fired :: "options \<Rightarrow> state \<Rightarrow> string \<Rightarrow> error + state" where
  "lookup_fired opts st t =
     (case lookup opts st t of
        Inl e \<Rightarrow> Inl e
      | Inr st' \<Rightarrow> lookup_timeout opts (clearTimeout (timer st') st') t)"

text \<open>One lookup after the other, each with its timer fired before the next.\<close>

fun lookups :: "options \<Rightarrow> string list \<Rightarrow> state \<Rightarrow> error + state" where
  "lookups opts [] st = Inr st"
| "lookups opts (t # ts) st =
     (case lookup_fired opts st t of Inl e \<Rightarrow> Inl e | Inr st' \<Rightarrow> lookups opts ts st')"

text \<open>
  The dropdown is open over the items of the state: it is shown, there is at least one
  item, each item has its row, and there are no more items than the limit allows (what
  \<^verbatim>\<open>process\<close> leaves behind when it shows the dropdown).
\<close>

definition open_over :: "options \<Rightarrow> state \<Rightarrow> bool" where
  "open_over opts st =
     (isVisible st \<and> items st \<noteq> [] \<and> length (rows st) = length (items st)
      \<and> int (length (items st)) \<le> itemLimit opts)"

text \<open>
  The render pipeline in the words of the spec: the sorted list, the items the matcher
  accepts for a term (all of them when the matcher is not a function), and the first
  \<open>itemLimit\<close> of those. \<open>scanned P k xs\<close> is the number of leading items of \<open>xs\<close> a loop
  looks at that stops once \<open>k\<close> items satisfying \<open>P\<close> have been kept.
\<close>

definition sorted_items :: "options \<Rightarrow> string list \<Rightarrow> string list" where
  "sorted_items opts raw = (case sorter opts of Some srt \<Rightarrow> srt raw | None \<Rightarrow> raw)"

definition keeps :: "options \<Rightarrow> string \<Rightarrow> string \<Rightarrow> bool" where
  "keeps opts t item = (case matcher opts of Some m \<Rightarrow> m item t | None \<Rightarrow> True)"

definition kept_items :: "options \<Rightarrow> string \<Rightarrow> string list \<Rightarrow> string list" where
  "kept_items opts t raw =
     take (nat (itemLimit opts)) (filter (keeps opts t) (sorted_items opts raw))"

fun scanned :: "(string \<Rightarrow> bool) \<Rightarrow> nat \<Rightarrow> string list \<Rightarrow> nat" where
  "scanned P k [] = 0"
| "scanned P 0 (x # xs) = 0"
| "scanned P (Suc k) (x # xs) = Suc (scanned P (if P x then k else Suc k) xs)"

definition matcher_calls :: "options \<Rightarrow> string \<Rightarrow> string list \<Rightarrow> (string \<times> string) list" where
  "matcher_calls opts t xs =
     (case matcher opts of None \<Rightarrow> [] | Some m \<Rightarrow> map (\<lambda>x. (x, t)) xs)"

text \<open>
  A sorter is an ordering function for \<open>le\<close> when its result is always in the order of
  \<open>le\<close> and it leaves a list alone that is in that order already.
\<close>

definition orders :: "(string \<Rightarrow> string \<Rightarrow> bool) \<Rightarrow> (string list \<Rightarrow> string list) \<Rightarrow> bool" where
  "orders le srt =
     ((\<forall>xs. sorted_wrt le (srt xs)) \<and> (\<forall>xs. sorted_wrt le xs \<longrightarrow> srt xs = xs))"

text \<open>
  Stripping the emphasis markers: one pass from left to right that drops every
  occurrence of the opening and of the closing marker.
\<close>

function strip_markers :: "string \<Rightarrow> string" where
  "strip_markers [] = []"
| "strip_markers (c # cs) =
     (if starts_with open_marker (c # cs)
      then strip_markers (drop (length open_marker) (c # cs))
      else if starts_with close_marker (c # cs)
      then strip_markers (drop (length close_marker) (c # cs))
      else c # strip_markers cs)"
  by pat_completeness auto
termination
  by (relation "measure length") (auto simp: open_marker_def close_marker_def)

definition is_marker :: "string \<Rightarrow> bool" where
  "is_marker m = (m = open_marker \<or> m = close_marker)"

definition marker_free :: "string \<Rightarrow> bool" where
  "marker_free s = (\<not> occurs open_marker s \<and> \<not> occurs close_marker s)"

text \<open>
  The sub-terms that the loop of \<^verbatim>\<open>highlight\<close> visits: the pieces of the term between single
  spaces, up to the first empty piece, where the loop test \<^verbatim>\<open>t = terms[i]\<close> is falsy.
\<close>

definition sub_terms :: "string \<Rightarrow> string list" where
  "sub_terms t = takeWhile (\<lambda>p. p \<noteq> []) (split_space t)"

text \<open>
  A sub-term is harmless when it cannot match inside a marker: it contains neither \<open><\<close> nor
  \<open>>\<close> and does not occur, letter case ignored, in either marker.
\<close>

definition harmless :: "string \<Rightarrow> bool" where
  "harmless p =
     (CHR ''<'' \<notin> set p \<and> CHR ''>'' \<notin> set p
      \<and> \<not> occurs (toLowerCase p) (toLowerCase open_marker)
      \<and> \<not> occurs (toLowerCase p) (toLowerCase close_marker))"

text \<open>
  \<open>marked s t\<close>: the string \<open>s\<close> is the text \<open>t\<close> with markers inserted, nested or not.
\<close>

inductive marked :: "string \<Rightarrow> string \<Rightarrow> bool" where
  marked_Nil: "marked [] []"
| marked_Cons: "marked s t \<Longrightarrow> marked (c # s) (c # t)"
| marked_marker: "is_marker m \<Longrightarrow> marked s t \<Longrightarrow> marked (m @ s) t"

section \<open>Example options and states\<close>

text \<open>
  A widget over an array of three items, with the default options and with a sorter
  that reverses the list. In \<open>typed\<close> the user has typed \<^verbatim>\<open>ban\<close>; in
  \<open>looked\<close> the key has come up and the timer of the lookup has fired and read the
  array; \<open>rendered\<close> is the state \<^verbatim>\<open>process\<close> leaves, with two rows shown; in
  \<open>navigated\<close> the arrow keys have reached the second row.
\<close>

definition fruit :: "string list" where
  "fruit = [''bandana'', ''apple'', ''banana'']"

definition fruit_options :: options where
  "fruit_options = default_options\<lparr>source := SrcArray fruit\<rparr>"

definition reversing :: options where
  "reversing = fruit_options\<lparr>sorter := Some rev\<rparr>"

definition typed :: state where
  "typed = initial\<lparr>input_value := ''ban''\<rparr>"

definition looked :: state where
  "looked =
     initial\<lparr>input_value := ''ban'', term := ''ban'', timer := Some 0, next_timer := 1,
             accessed := [ArrayRead]\<rparr>"

definition rendered :: state where
  \<open>rendered =
     looked\<lparr>items := [''banana'', ''bandana''],
            rows := [''<span class="highlight">ban</span>ana'',
                     ''<span class="highlight">ban</span>dana''],
            cache := [''ban'' \<mapsto> [''banana'', ''bandana'']],
            visible := True, fired := [Show],
            matched := [(''apple'', ''ban''), (''banana'', ''ban''), (''bandana'', ''ban'')],
            highlighted := [''banana'', ''bandana'']\<rparr>\<close>

definition navigated :: state where
  "navigated = rendered\<lparr>index := 1, input_value := ''bandana'', active := Some 1\<rparr>"

text \<open>Scenario C of the spec: a limit of two items and the term \<^verbatim>\<open>a\<close>.\<close>

definition limited :: options where
  "limited = default_options\<lparr>itemLimit := 2\<rparr>"

definition typed_a :: state where
  "typed_a = initial\<lparr>term := ''a'', input_value := ''a''\<rparr>"

text \<open>
  Scenario B of the spec: at least three characters are required; the lookup for
  \<^verbatim>\<open>app\<close> is pending when a character is deleted.
\<close>

definition patient :: options where
  "patient = default_options\<lparr>minLength := 3\<rparr>"

definition waiting :: state where
  "waiting = setTimeout ''app'' (initial\<lparr>term := ''app'', input_value := ''ap''\<rparr>)"

text \<open>
  A source that is no array, string or function, and two source functions: one that
  answers only when it is given an argument, and one that reads the term from the
  widget and answers with the three items for \<^verbatim>\<open>ban\<close> and with the empty array for any
  other term, with the options \<open>asking\<close> that use it and the state \<open>answered\<close> in
  which it has answered for \<^verbatim>\<open>ban\<close>.
\<close>

definition invalid_options :: options where
  "invalid_options = default_options\<lparr>source := SrcOther\<rparr>"

definition wants_term :: "jsval list \<Rightarrow> state \<Rightarrow> response" where
  "wants_term args this = (case args of [] \<Rightarrow> Falsy | a # _ \<Rightarrow> Items [''banana''])"

definition fruit_source :: "jsval list \<Rightarrow> state \<Rightarrow> response" where
  "fruit_source args this = (if term this = ''ban'' then Items fruit else Items [])"

definition asking :: options where
  "asking = default_options\<lparr>source := SrcFunction fruit_source\<rparr>"

definition answered :: state where
  "answered = rendered\<lparr>accessed := [FunctionCall]\<rparr>"

section \<open>Evaluation and reachability of the examples\<close>

lemmas eval_simps =
  lower_def char_of_def bit_Suc_0_iff toLowerCase_def match_def sort_items_def
  highlight_def escape_def metachars_def backslash_def matches_at_def
  open_marker_def close_marker_def
  position_def hide_def showElement_def fireEvent_def isVisible_def

lemmas cache_simps =
  cache_hit_def cache_read_def inherited_def truthy_def object_prototype_def

text \<open>
  The test of the cache looks at the cache and at what stands behind it only. A stored
  list is found by it, whatever the prototype.
\<close>

lemma cache_hit_cong:
  assumes "cache a = cache b" "proto a = proto b" "object_methods a = object_methods b"
    "array_methods a = array_methods b"
  shows "cache_hit a = cache_hit b"
proof -
  have "inherited a = inherited b"
    using assms by (intro ext) (simp add: inherited_def split: option.splits)
  then have "cache_read a = cache_read b"
    using assms by (intro ext) (simp add: cache_read_def split: option.splits)
  then show ?thesis by (intro ext) (simp add: cache_hit_def)
qed


lemma cache_hit_stored: "cache st k = Some xs \<Longrightarrow> cache_hit st k = Some (PArray xs)"
  by (simp add: cache_hit_def cache_read_def truthy_def)

lemma typed_keyup:
  "lookup_keyup fruit_options typed OtherKey = lookup fruit_options typed ''ban''"
  by (simp add: lookup_keyup_def typed_def initial_def clearTimeout_def trim_def is_space_def
      fruit_options_def default_options_def)

lemma process_looked: "process fruit_options looked fruit = rendered"
  by (simp add: process_def fruit_options_def default_options_def fruit_def looked_def
      rendered_def initial_def Let_def eval_simps)

lemma rendered_reached: "lookup_fired fruit_options typed ''ban'' = Inr rendered"
proof -
  have "lookup_fired fruit_options typed ''ban'' = Inr (process fruit_options looked fruit)"
    by (simp add: lookup_fired_def lookup_def setTimeout_def clearTimeout_def
        lookup_timeout_def cache_simps typed_def looked_def initial_def fruit_options_def)
  then show ?thesis by (simp add: process_looked)
qed

lemma answered_reached: "lookup_fired asking typed ''ban'' = Inr answered"
proof -
  have "lookup_fired asking typed ''ban''
          = Inr (process asking (looked\<lparr>accessed := [FunctionCall]\<rparr>) fruit)"
    by (simp add: lookup_fired_def lookup_def setTimeout_def clearTimeout_def
        lookup_timeout_def cache_simps attempt_def fruit_source_def typed_def looked_def
        initial_def asking_def)
  moreover have "process asking (looked\<lparr>accessed := [FunctionCall]\<rparr>) fruit = answered"
    by (simp add: process_def asking_def default_options_def fruit_def looked_def
        answered_def rendered_def initial_def Let_def eval_simps)
  ultimately show ?thesis by simp
qed

lemma navigated_reached: "press fruit_options Down 2 rendered = Inr navigated"
  by (simp add: numeral_2_eq_2 cycle_def limit_def isVisible_def select_row_def js_nth_def
      navigated_def rendered_def looked_def initial_def fruit_options_def default_options_def)

section \<open>The render pipeline\<close>

lemma highlight_term: "term a = term b \<Longrightarrow> highlight a = highlight b"
  by (rule ext) (simp add: highlight_def)

lemma matcher_calls_Cons:
  "matcher opts = Some m \<Longrightarrow> matcher_calls opts t (x # xs) = (x, t) # matcher_calls opts t xs"
  "matcher opts = None \<Longrightarrow> matcher_calls opts t xs = []"
  by (simp_all add: matcher_calls_def)

text \<open>
  What the loop does, in one equation: started with \<open>c\<close> items kept, it keeps the first
  \<open>itemLimit - c\<close> items the matcher accepts, calls \<^verbatim>\<open>highlight\<close> for exactly these and
  the matcher for the items it has scanned.
\<close>

lemma process_loop_eq:
  "process_loop opts xs c ul st =
     (ul @ map (highlight st) (take (nat (itemLimit opts - c)) (filter (keeps opts (term st)) xs)),
      st\<lparr>matched := matched st @ matcher_calls opts (term st)
                        (take (scanned (keeps opts (term st)) (nat (itemLimit opts - c)) xs) xs),
         highlighted := highlighted st @ take (nat (itemLimit opts - c)) (filter (keeps opts (term st)) xs),
         items := items st @ take (nat (itemLimit opts - c)) (filter (keeps opts (term st)) xs)\<rparr>)"
proof (induction xs arbitrary: c ul st)
  case Nil
  then show ?case by (simp add: matcher_calls_def split: option.splits)
next
  case (Cons x xs)
  show ?case
  proof (cases "c \<ge> itemLimit opts")
    case True
    then have "nat (itemLimit opts - c) = 0" by simp
    then show ?thesis using True by (simp add: matcher_calls_def split: option.splits)
  next
    case False
    then obtain k where k: "nat (itemLimit opts - c) = Suc k" "nat (itemLimit opts - (c + 1)) = k"
      by (cases "nat (itemLimit opts - c)") (auto simp: nat_diff_distrib)
    show ?thesis
    proof (cases "matcher opts")
      case None
      then have "keeps opts (term st) x" by (simp add: keeps_def)
      then show ?thesis using False None k
        by (simp add: Cons.IH matcher_calls_Cons
            highlight_term[of "st\<lparr>highlighted := highlighted st @ [x], items := items st @ [x]\<rparr>" st])
    next
      case (Some m)
      show ?thesis
      proof (cases "m x (term st)")
        case True
        then have "keeps opts (term st) x" using Some by (simp add: keeps_def)
        then show ?thesis using False Some True k
          by (simp add: Cons.IH Let_def matcher_calls_Cons
              highlight_term[of "st\<lparr>matched := matched st @ [(x, term st)]\<rparr>" st]
              highlight_term[of "st\<lparr>matched := matched st @ [(x, term st)],
                  highlighted := highlighted st @ [x], items := items st @ [x]\<rparr>" st])
      next
        case no: False
        then have "\<not> keeps opts (term st) x" using Some by (simp add: keeps_def)
        then show ?thesis using False Some no k
          by (simp add: Cons.IH Let_def matcher_calls_Cons
              highlight_term[of "st\<lparr>matched := matched st @ [(x, term st)]\<rparr>" st])
      qed
    qed
  qed
qed

lemma scanned_le: "scanned P k xs \<le> length xs"
  by (induction P k xs rule: scanned.induct) auto

lemma scanned_filter: "filter P (take (scanned P k xs) xs) = take k (filter P xs)"
  by (induction P k xs rule: scanned.induct) auto

lemma scanned_less: "scanned P k xs < length xs \<Longrightarrow> length (take k (filter P xs)) = k"
  by (induction P k xs rule: scanned.induct) (auto split: if_splits)

text \<open>\<^verbatim>\<open>process\<close> behind its early return, field by field.\<close>

lemma process_eq:
  assumes "term st \<noteq> []" "raw \<noteq> []"
  shows "process opts st raw =
           st\<lparr>index := -1,
              matched := matched st @ matcher_calls opts (term st)
                 (take (scanned (keeps opts (term st)) (nat (itemLimit opts)) (sorted_items opts raw))
                    (sorted_items opts raw)),
              highlighted := highlighted st @ kept_items opts (term st) raw,
              items := kept_items opts (term st) raw,
              rows := map (highlight st) (kept_items opts (term st) raw),
              active := None,
              cache := (cache st)(term st \<mapsto> kept_items opts (term st) raw),
              proto := (if term st = ''__proto__'' then Some (kept_items opts (term st) raw)
                        else proto st),
              visible := (kept_items opts (term st) raw \<noteq> []),
              fired := fired st @ [Show]\<rparr>"
  using assms
  by (simp add: process_def Let_def process_loop_eq sorted_items_def[symmetric] kept_items_def
      position_def hide_def showElement_def fireEvent_def
      highlight_term[of "st\<lparr>items := [], index := -1\<rparr>" st])

text \<open>
  C1: for a non-empty term and a non-empty raw list (and a limit that is not negative),
  the rendered items are the first \<open>itemLimit\<close> items of the sorted list that the matcher
  accepts, so there are at most \<open>itemLimit\<close> of them; the matcher has been called for
  the first \<open>n\<close> items of the sorted list and for no other, and items are left beyond
  these \<open>n\<close> only when the limit has been reached; \<^verbatim>\<open>highlight\<close> has been called for the
  rendered items and for no other, and its results are the rows.
\<close>

theorem process_keeps_up_to_limit:
  assumes "term st \<noteq> []" "raw \<noteq> []" "0 \<le> itemLimit opts"
  shows "items (process opts st raw)
           = take (nat (itemLimit opts)) (filter (keeps opts (term st)) (sorted_items opts raw))
       \<and> int (length (items (process opts st raw))) \<le> itemLimit opts
       \<and> (\<exists>n \<le> length (sorted_items opts raw).
             matched (process opts st raw)
               = matched st @ matcher_calls opts (term st) (take n (sorted_items opts raw))
           \<and> filter (keeps opts (term st)) (take n (sorted_items opts raw))
               = items (process opts st raw)
           \<and> (n < length (sorted_items opts raw) \<longrightarrow>
                 int (length (items (process opts st raw))) = itemLimit opts))
       \<and> highlighted (process opts st raw) = highlighted st @ items (process opts st raw)
       \<and> rows (process opts st raw) = map (highlight st) (items (process opts st raw))"
proof -
  let ?P = "keeps opts (term st)" and ?xs = "sorted_items opts raw" and ?k = "nat (itemLimit opts)"
  let ?n = "scanned ?P ?k ?xs"
  have i: "items (process opts st raw) = take ?k (filter ?P ?xs)"
    and m: "matched (process opts st raw) = matched st @ matcher_calls opts (term st) (take ?n ?xs)"
    and h: "highlighted (process opts st raw) = highlighted st @ take ?k (filter ?P ?xs)"
    and r: "rows (process opts st raw) = map (highlight st) (take ?k (filter ?P ?xs))"
    by (simp_all add: process_eq[OF assms(1,2)] kept_items_def)
  have l: "int (length (take ?k (filter ?P ?xs))) \<le> itemLimit opts"
    using assms(3) by simp
  have n: "?n < length ?xs \<longrightarrow> int (length (take ?k (filter ?P ?xs))) = itemLimit opts"
    using scanned_less[of ?P ?k ?xs] assms(3) by auto
  have "?n \<le> length ?xs \<and> matched (process opts st raw)
               = matched st @ matcher_calls opts (term st) (take ?n ?xs)
           \<and> filter ?P (take ?n ?xs) = items (process opts st raw)
           \<and> (?n < length ?xs \<longrightarrow> int (length (items (process opts st raw))) = itemLimit opts)"
    using scanned_le[of ?P ?k ?xs] m i n by (simp add: scanned_filter)
  then have "\<exists>n \<le> length ?xs. matched (process opts st raw)
               = matched st @ matcher_calls opts (term st) (take n ?xs)
           \<and> filter ?P (take n ?xs) = items (process opts st raw)
           \<and> (n < length ?xs \<longrightarrow> int (length (items (process opts st raw))) = itemLimit opts)"
    by blast
  then show ?thesis using i l h r by simp
qed

theorem process_keeps_up_to_limit_witness:
  \<open>term typed_a \<noteq> [] \<and> 0 \<le> itemLimit limited
   \<and> items (process limited typed_a [''ac'', ''aa'', ''b'', ''ab'']) = [''aa'', ''ab'']
   \<and> int (length (items (process limited typed_a [''ac'', ''aa'', ''b'', ''ab'']))) \<le> 2
   \<and> matched (process limited typed_a [''ac'', ''aa'', ''b'', ''ab''])
       = [(''aa'', ''a''), (''ab'', ''a'')]
   \<and> highlighted (process limited typed_a [''ac'', ''aa'', ''b'', ''ab'']) = [''aa'', ''ab'']
   \<and> rows (process limited typed_a [''ac'', ''aa'', ''b'', ''ab''])
       = [''<span class="highlight">a</span><span class="highlight">a</span>'',
          ''<span class="highlight">a</span>b'']\<close>
proof -
  let ?P = "process limited typed_a [''ac'', ''aa'', ''b'', ''ab'']"
  have h: "term typed_a \<noteq> []" "[''ac'', ''aa'', ''b'', ''ab''] \<noteq> []" "0 \<le> itemLimit limited"
    by (simp_all add: typed_a_def initial_def limited_def default_options_def)
  have s: "sorted_items limited [''ac'', ''aa'', ''b'', ''ab''] = [''aa'', ''ab'', ''ac'', ''b'']"
    by (simp add: sorted_items_def limited_def default_options_def sort_items_def)
  have k: "keeps limited (term typed_a) ''aa''" "keeps limited (term typed_a) ''ab''"
    by (simp_all add: keeps_def limited_def default_options_def typed_a_def initial_def eval_simps)
  have t: "nat (itemLimit limited) = Suc (Suc 0)" by (simp add: limited_def default_options_def)
  have f: "matcher limited = Some match" "term typed_a = ''a''" "matched typed_a = []"
    "highlighted typed_a = []" "itemLimit limited = 2"
    by (simp_all add: limited_def default_options_def typed_a_def initial_def)
  from process_keeps_up_to_limit[OF h]
  have A: "items ?P = take (nat (itemLimit limited))
             (filter (keeps limited (term typed_a))
               (sorted_items limited [''ac'', ''aa'', ''b'', ''ab'']))"
    and B: "int (length (items ?P)) \<le> itemLimit limited"
    and C: "highlighted ?P = highlighted typed_a @ items ?P"
    and D: "rows ?P = map (highlight typed_a) (items ?P)"
    by blast+
  have I: "items ?P = [''aa'', ''ab'']" using A by (simp add: s k t)
  have M: "matched ?P = [(''aa'', ''a''), (''ab'', ''a'')]"
    by (simp add: process_eq[OF h(1,2)] s k t matcher_calls_def f(1)) (simp add: f)
  have H: "highlighted ?P = [''aa'', ''ab'']" using C I f by simp
  have r: \<open>map (highlight typed_a) [''aa'', ''ab'']
       = [''<span class="highlight">a</span><span class="highlight">a</span>'',
          ''<span class="highlight">a</span>b'']\<close>
    by (simp add: typed_a_def initial_def eval_simps)
  have R: \<open>rows ?P = [''<span class="highlight">a</span><span class="highlight">a</span>'',
          ''<span class="highlight">a</span>b'']\<close>
    using D I r by simp
  have L: "int (length (items ?P)) \<le> 2" using B f by simp
  show ?thesis using h(1,3) I L M H R by blast
qed

section \<open>The selection keys\<close>

lemma limit_open:
  "open_over opts st \<Longrightarrow>
     limit (int (length (items st))) 0 (itemLimit opts) = int (length (items st))"
  by (auto simp: open_over_def limit_def)

lemma cycle_Down:
  assumes "open_over opts st" "-1 \<le> index st" "index st < int (length (items st))"
  shows "cycle opts st Down =
           Inr (st\<lparr>index := (if index st + 1 \<ge> int (length (items st)) then 0 else index st + 1),
                   active := Some (nat (if index st + 1 \<ge> int (length (items st)) then 0 else index st + 1)),
                   input_value := items st ! nat (if index st + 1 \<ge> int (length (items st)) then 0 else index st + 1)\<rparr>)"
  using assms limit_open[OF assms(1)]
  by (auto simp: cycle_def Let_def select_row_def js_nth_def open_over_def)

lemma cycle_Up:
  assumes "open_over opts st" "-1 \<le> index st" "index st < int (length (items st))"
  shows "cycle opts st Up =
           Inr (st\<lparr>index := (if index st - 1 < 0 then int (length (items st)) - 1 else index st - 1),
                   active := Some (nat (if index st - 1 < 0 then int (length (items st)) - 1 else index st - 1)),
                   input_value := items st ! nat (if index st - 1 < 0 then int (length (items st)) - 1 else index st - 1)\<rparr>)"
  using assms limit_open[OF assms(1)]
  by (auto simp: cycle_def Let_def select_row_def js_nth_def open_over_def)

text \<open>From a valid index, \<open>n\<close> presses of down move the index \<open>n\<close> places round the list.\<close>

lemma press_Down:
  assumes "open_over opts st" "0 \<le> index st" "index st < int (length (items st))"
  shows "\<exists>st'. press opts Down n st = Inr st' \<and> open_over opts st' \<and> items st' = items st
            \<and> index st' = (index st + int n) mod int (length (items st))"
  using assms
proof (induction n arbitrary: st)
  case 0
  then show ?case by simp
next
  case (Suc n)
  let ?N = "int (length (items st))"
  let ?i = "if index st + 1 \<ge> ?N then 0 else index st + 1"
  let ?st = "st\<lparr>index := ?i, active := Some (nat ?i), input_value := items st ! nat ?i\<rparr>"
  have c: "cycle opts st Down = Inr ?st"
    using cycle_Down[of opts st] Suc.prems by simp
  have o: "open_over opts ?st" using Suc.prems by (simp add: open_over_def isVisible_def)
  have r: "0 \<le> index ?st" "index ?st < int (length (items ?st))" using Suc.prems by auto
  from Suc.IH[OF o r] obtain st' where
    p: "press opts Down n ?st = Inr st'" "open_over opts st'" "items st' = items st"
       "index st' = (?i + int n) mod ?N" by auto
  have "(?i + int n) mod ?N = (index st + int (Suc n)) mod ?N"
  proof (cases "index st + 1 \<ge> ?N")
    case True
    then have "index st + 1 = ?N" using Suc.prems by simp
    then have "index st + int (Suc n) = ?N + int n" by simp
    then have "(index st + int (Suc n)) mod ?N = int n mod ?N" by (simp only: mod_add_self1)
    then show ?thesis using True by simp
  next
    case False
    then show ?thesis by (simp add: algebra_simps)
  qed
  then show ?case using c p by simp
qed

lemma press_Down_first:
  assumes "open_over opts st" "index st = -1"
  shows "\<exists>st'. press opts Down (length (items st)) st = Inr st'
            \<and> index st' = int (length (items st)) - 1"
proof -
  obtain m where m: "length (items st) = Suc m"
    using assms(1) by (cases "items st") (auto simp: open_over_def)
  let ?st = "st\<lparr>index := 0, active := Some (nat 0), input_value := items st ! nat 0\<rparr>"
  have c: "cycle opts st Down = Inr ?st"
    using cycle_Down[of opts st] assms m by simp
  have o: "open_over opts ?st" using assms by (simp add: open_over_def isVisible_def)
  have r: "0 \<le> index ?st" "index ?st < int (length (items ?st))" using m by auto
  from press_Down[OF o r, of m] obtain st' where
    "press opts Down m ?st = Inr st'" "index st' = (0 + int m) mod int (Suc m)"
    using m by auto
  then show ?thesis using c m by simp
qed

lemma open_examples:
  "open_over fruit_options rendered" "open_over fruit_options navigated"
  by (simp_all add: open_over_def navigated_def rendered_def looked_def initial_def
      isVisible_def fruit_options_def default_options_def)

text \<open>
  C2, as stated, at the index \<open>-1\<close> the dropdown opens with: over two items, two presses
  of down end at index \<open>1\<close> and not at \<open>-1\<close>.
\<close>

theorem down_from_no_selection_counterexample:
  "isVisible rendered \<and> length (items rendered) = 2 \<and> index rendered = -1
   \<and> after index (press fruit_options Down 2 rendered) = Inr 1
   \<and> after index (press fruit_options Down (length (items rendered)) rendered)
       \<noteq> Inr (index rendered)"
  by (simp add: rendered_def looked_def initial_def fruit_options_def default_options_def
      after_def numeral_2_eq_2 cycle_def limit_def isVisible_def select_row_def js_nth_def)

text \<open>
  C2 (amended): while the dropdown is open over \<open>N\<close> items and the index is \<open>-1\<close> or an
  index of the list, up gives the index before, and \<open>N - 1\<close> when that would be below
  \<open>0\<close> (so \<open>N - 1\<close> from \<open>-1\<close>); down gives the index after, and \<open>0\<close> when that would
  reach \<open>N\<close>; \<open>N\<close> presses of down from an index of the list come back to it, and \<open>N\<close>
  presses of down from \<open>-1\<close> end at \<open>N - 1\<close>.
\<close>

theorem cycle_wraps:
  assumes "open_over opts st" "-1 \<le> index st" "index st < int (length (items st))"
  shows "(\<exists>st'. cycle opts st Up = Inr st' \<and>
            index st' = (if index st - 1 < 0 then int (length (items st)) - 1 else index st - 1))
       \<and> (\<exists>st'. cycle opts st Down = Inr st' \<and>
            index st' = (if index st + 1 \<ge> int (length (items st)) then 0 else index st + 1))
       \<and> (0 \<le> index st \<longrightarrow>
            (\<exists>st'. press opts Down (length (items st)) st = Inr st' \<and> index st' = index st))
       \<and> (index st = -1 \<longrightarrow>
            (\<exists>st'. press opts Down (length (items st)) st = Inr st'
                  \<and> index st' = int (length (items st)) - 1))"
proof (intro conjI impI)
  show "\<exists>st'. cycle opts st Up = Inr st' \<and>
            index st' = (if index st - 1 < 0 then int (length (items st)) - 1 else index st - 1)"
    using cycle_Up[OF assms] by simp
  show "\<exists>st'. cycle opts st Down = Inr st' \<and>
            index st' = (if index st + 1 \<ge> int (length (items st)) then 0 else index st + 1)"
    using cycle_Down[OF assms] by simp
next
  assume i: "0 \<le> index st"
  from press_Down[OF assms(1) i assms(3), of "length (items st)"]
  show "\<exists>st'. press opts Down (length (items st)) st = Inr st' \<and> index st' = index st"
    using i assms(3) by auto
next
  assume "index st = -1"
  then show "\<exists>st'. press opts Down (length (items st)) st = Inr st'
                  \<and> index st' = int (length (items st)) - 1"
    using press_Down_first[OF assms(1)] by simp
qed

theorem cycle_wraps_witness:
  "open_over fruit_options navigated \<and> index navigated = 1
   \<and> after index (cycle fruit_options navigated Up) = Inr 0
   \<and> after index (cycle fruit_options navigated Down) = Inr 0
   \<and> after index (press fruit_options Down 2 navigated) = Inr 1
   \<and> open_over fruit_options rendered \<and> index rendered = -1
   \<and> after index (cycle fruit_options rendered Up) = Inr 1
   \<and> after index (cycle fruit_options rendered Down) = Inr 0"
proof -
  have n: "-1 \<le> index navigated" "index navigated < int (length (items navigated))"
    and r: "-1 \<le> index rendered" "index rendered < int (length (items rendered))"
    by (simp_all add: navigated_def rendered_def looked_def initial_def)
  have l: "length (items navigated) = 2" "index navigated = 1"
    "length (items rendered) = 2" "index rendered = -1"
    by (simp_all add: navigated_def rendered_def looked_def initial_def)
  from cycle_wraps[OF open_examples(2) n] cycle_wraps[OF open_examples(1) r] show ?thesis
    unfolding l using open_examples by (auto simp: after_def)
qed

text \<open>
  C6: esc while the dropdown is open sets the index to \<open>-1\<close>, puts the current term back
  into the input, whatever the arrow keys had put there, fires \<^verbatim>\<open>reset\<close> and hides the
  dropdown; nothing else changes but the active class, which no row keeps.
\<close>

theorem esc_resets:
  assumes "isVisible st" "items st \<noteq> []" "itemLimit opts \<noteq> 0"
  shows "cycle opts st Esc =
           Inr (st\<lparr>index := -1, input_value := term st, fired := fired st @ [Reset],
                   visible := False, active := None\<rparr>)"
  using assms
  by (auto simp: cycle_def Let_def limit_def select_row_def hide_def fireEvent_def
      min_def max_def)

theorem esc_resets_witness:
  "isVisible navigated \<and> input_value navigated = ''bandana'' \<and> index navigated = 1
   \<and> cycle fruit_options navigated Esc =
       Inr (navigated\<lparr>index := -1, input_value := ''ban'', fired := [Show, Reset],
                      visible := False, active := None\<rparr>)"
proof -
  have h: "isVisible navigated" "items navigated \<noteq> []" "itemLimit fruit_options \<noteq> 0"
    by (simp_all add: navigated_def rendered_def looked_def initial_def isVisible_def
        fruit_options_def default_options_def)
  from esc_resets[OF h] show ?thesis
    using h(1) by (simp add: navigated_def rendered_def looked_def initial_def)
qed

text \<open>
  C10: enter while the dropdown is open and the index is still \<open>-1\<close> fires \<^verbatim>\<open>select\<close>
  with \<^verbatim>\<open>items[-1]\<close>, which is \<^verbatim>\<open>undefined\<close>, and the index \<open>-1\<close>, and hides the
  dropdown: the branch does not test the index.
\<close>

theorem enter_without_selection:
  assumes "isVisible st" "items st \<noteq> []" "itemLimit opts \<noteq> 0" "index st = -1"
  shows "js_nth (items st) (index st) = None
       \<and> cycle opts st Enter =
           Inr (st\<lparr>fired := fired st @ [Select None (-1)], visible := False, active := None\<rparr>)"
  using assms
  by (auto simp: cycle_def Let_def limit_def select_row_def hide_def fireEvent_def js_nth_def
      min_def max_def)

theorem enter_without_selection_witness:
  "isVisible rendered \<and> index rendered = -1
   \<and> cycle fruit_options rendered Enter =
       Inr (rendered\<lparr>fired := [Show, Select None (-1)], visible := False, active := None\<rparr>)"
proof -
  have h: "isVisible rendered" "items rendered \<noteq> []" "itemLimit fruit_options \<noteq> 0"
    "index rendered = -1"
    by (simp_all add: rendered_def looked_def initial_def isVisible_def fruit_options_def
        default_options_def)
  from enter_without_selection[OF h] show ?thesis
    using h(1,4) by (simp add: rendered_def looked_def initial_def)
qed

section \<open>The cache\<close>

text \<open>The default sorter is an ordering function for the order of the strings.\<close>

lemma orders_sort_items: "orders (\<le>) sort_items"
  by (simp add: orders_def sort_items_def sorted_sort_id)

text \<open>
  Rendering what has been rendered changes nothing: the list is in order, every item
  is accepted and the limit is not exceeded.
\<close>

lemma kept_items_stable:
  assumes "sorter opts = None \<or> (\<exists>le srt. sorter opts = Some srt \<and> orders le srt)"
  shows "kept_items opts t (kept_items opts t raw) = kept_items opts t raw"
proof -
  let ?ys = "kept_items opts t raw"
  have a: "\<forall>y \<in> set ?ys. keeps opts t y"
    by (auto simp: kept_items_def dest: in_set_takeD)
  have b: "length ?ys \<le> nat (itemLimit opts)" by (simp add: kept_items_def)
  have c: "sorted_items opts ?ys = ?ys"
    using assms
  proof
    assume "sorter opts = None"
    then show ?thesis by (simp add: sorted_items_def)
  next
    assume "\<exists>le srt. sorter opts = Some srt \<and> orders le srt"
    then obtain le srt where s: "sorter opts = Some srt" "orders le srt" by blast
    then have "sorted_wrt le (srt raw)" by (simp add: orders_def)
    then have "sorted_wrt le ?ys"
      using s(1) by (simp add: kept_items_def sorted_items_def sorted_wrt_take sorted_wrt_filter)
    then show ?thesis using s by (simp add: sorted_items_def orders_def)
  qed
  have "filter (keeps opts t) ?ys = ?ys" using a by (simp add: filter_id_conv)
  then show ?thesis using b c by (simp add: kept_items_def[of opts t ?ys])
qed

text \<open>
  A lookup that finds the list \<^verbatim>\<open>process\<close> has stored under its term: the source is not
  accessed; a list that is not empty is rendered again, an empty list hides the dropdown
  and leaves the items in place.
\<close>

lemma cached_lookup:
  assumes "sorter opts = None \<or> (\<exists>le srt. sorter opts = Some srt \<and> orders le srt)"
    and "t \<noteq> []" and "cache s t = Some (kept_items opts t raw)"
  shows "\<exists>s'. lookup_fired opts s t = Inr s' \<and> accessed s' = accessed s
           \<and> (kept_items opts t raw \<noteq> [] \<longrightarrow>
                 items s' = kept_items opts t raw
               \<and> rows s' = map (highlight (s\<lparr>term := t\<rparr>)) (kept_items opts t raw))
           \<and> (kept_items opts t raw = [] \<longrightarrow>
                 items s' = items s \<and> rows s' = rows s \<and> \<not> isVisible s')"
proof -
  let ?K = "kept_items opts t raw"
  let ?s2 = "clearTimeout (Some (next_timer s)) (setTimeout t (s\<lparr>term := t\<rparr>))"
  have f: "term ?s2 = t" "cache ?s2 = cache s" "items ?s2 = items s" "accessed ?s2 = accessed s"
    "rows ?s2 = rows s"
    by (simp_all add: setTimeout_def clearTimeout_def)
  have l: "lookup_fired opts s t = lookup_timeout opts ?s2 t"
    by (simp add: lookup_fired_def lookup_def setTimeout_def)
  have "cache_hit ?s2 t = Some (PArray ?K)"
    using assms(3) f by (simp add: cache_hit_stored)
  then have c: "lookup_timeout opts ?s2 t = Inr (process opts ?s2 ?K)"
    by (simp add: lookup_timeout_def process_any_def)
  have h: "highlight ?s2 = highlight (s\<lparr>term := t\<rparr>)"
    by (rule highlight_term) (simp add: f)
  show ?thesis
  proof (cases "?K = []")
    case True
    then have "process opts ?s2 ?K = hide ?s2" by (simp add: process_def)
    then show ?thesis using l c f True by (simp add: hide_def isVisible_def)
  next
    case False
    have t: "term ?s2 \<noteq> []" using f assms(2) by simp
    show ?thesis using l c False h
      by (simp add: process_eq[OF t False] f kept_items_stable[OF assms(1)])
  qed
qed

text \<open>
  C3, as stated, at a widget over the three items. With the default options the lookup
  of \<^verbatim>\<open>zzz\<close> finds no item and stores the empty list, the lookup of \<^verbatim>\<open>ban\<close> renders two
  items, and the second lookup of \<^verbatim>\<open>zzz\<close> takes the empty list from the cache, reads
  the source no more often, hides the dropdown and leaves the two items where the first
  had left none. With a sorter that reverses the list, the second of two lookups of
  \<^verbatim>\<open>ban\<close> reverses the cached list once more.
\<close>

theorem repeated_lookup_counterexample:
  "after items (lookups fruit_options [''zzz''] initial) = Inr []
   \<and> after (\<lambda>s. cache s ''zzz'') (lookups fruit_options [''zzz''] initial) = Inr (Some [])
   \<and> after items (lookups fruit_options [''zzz'', ''ban'', ''zzz''] initial)
       = Inr [''banana'', ''bandana'']
   \<and> after accessed (lookups fruit_options [''zzz'', ''ban'', ''zzz''] initial)
       = after accessed (lookups fruit_options [''zzz'', ''ban''] initial)
   \<and> after items (lookups fruit_options [''zzz'', ''ban'', ''zzz''] initial)
       \<noteq> after items (lookups fruit_options [''zzz''] initial)
   \<and> after items (lookups reversing [''ban''] initial) = Inr [''banana'', ''bandana'']
   \<and> after items (lookups reversing [''ban'', ''ban''] initial) = Inr [''bandana'', ''banana'']"
  by (simp add: after_def lookup_fired_def lookup_def setTimeout_def clearTimeout_def
      lookup_timeout_def process_any_def cache_simps process_def reversing_def
      fruit_options_def default_options_def fruit_def initial_def Let_def eval_simps)

text \<open>
  C3 (amended): when \<^verbatim>\<open>process\<close> has run for a term (behind its early return) with a
  sorter that is no function or an ordering function, the cache holds the rendered items
  under the term. A lookup of the same term whose timer fires next renders the same
  items and rows and does not access the source. In any later state whose cache still
  holds that entry, a lookup of the term does not access the source either; it renders
  the same items and rows when the list is not empty, and when the list is empty it
  hides the dropdown and leaves the items as they are.
\<close>

theorem repeated_lookup_uses_cache:
  assumes "term st \<noteq> []" and "raw \<noteq> []"
    and "sorter opts = None \<or> (\<exists>le srt. sorter opts = Some srt \<and> orders le srt)"
  shows "cache (process opts st raw) (term st) = Some (items (process opts st raw))
       \<and> (\<exists>s'. lookup_fired opts (process opts st raw) (term st) = Inr s'
             \<and> items s' = items (process opts st raw)
             \<and> rows s' = rows (process opts st raw)
             \<and> accessed s' = accessed (process opts st raw))
       \<and> (\<forall>s. cache s (term st) = cache (process opts st raw) (term st) \<longrightarrow>
             (\<exists>s'. lookup_fired opts s (term st) = Inr s' \<and> accessed s' = accessed s
                \<and> (items (process opts st raw) \<noteq> [] \<longrightarrow>
                      items s' = items (process opts st raw)
                    \<and> rows s' = rows (process opts st raw))
                \<and> (items (process opts st raw) = [] \<longrightarrow>
                      items s' = items s \<and> \<not> isVisible s')))"
proof -
  let ?t = "term st" and ?s1 = "process opts st raw"
  let ?K = "kept_items opts ?t raw"
  have f: "items ?s1 = ?K" "cache ?s1 ?t = Some ?K" "rows ?s1 = map (highlight st) ?K"
    by (simp_all add: process_eq[OF assms(1,2)])
  have h: "highlight (s\<lparr>term := ?t\<rparr>) = highlight st" for s
    by (rule highlight_term) simp
  have a: "\<exists>s'. lookup_fired opts ?s1 ?t = Inr s' \<and> items s' = items ?s1
             \<and> rows s' = rows ?s1 \<and> accessed s' = accessed ?s1"
    using cached_lookup[OF assms(3,1) f(2)] f h by (cases "?K = []") auto
  have b: "\<exists>s'. lookup_fired opts s ?t = Inr s' \<and> accessed s' = accessed s
             \<and> (items ?s1 \<noteq> [] \<longrightarrow> items s' = items ?s1 \<and> rows s' = rows ?s1)
             \<and> (items ?s1 = [] \<longrightarrow> items s' = items s \<and> \<not> isVisible s')"
    if "cache s ?t = cache ?s1 ?t" for s
  proof -
    have c: "cache s ?t = Some ?K" using that f by simp
    show ?thesis using cached_lookup[OF assms(3,1) c] f h by auto
  qed
  show ?thesis using f a b by auto
qed

theorem repeated_lookup_uses_cache_witness:
  "term looked \<noteq> [] \<and> fruit \<noteq> []
   \<and> (\<exists>le srt. sorter fruit_options = Some srt \<and> orders le srt)
   \<and> process fruit_options looked fruit = rendered
   \<and> cache rendered ''ban'' = Some [''banana'', ''bandana'']
   \<and> after items (lookup_fired fruit_options rendered ''ban'') = Inr [''banana'', ''bandana'']
   \<and> after rows (lookup_fired fruit_options rendered ''ban'') = Inr (rows rendered)
   \<and> after accessed (lookup_fired fruit_options rendered ''ban'') = Inr [ArrayRead]
   \<and> cache navigated ''ban'' = cache rendered ''ban''
   \<and> after items (lookup_fired fruit_options navigated ''ban'') = Inr [''banana'', ''bandana'']
   \<and> after accessed (lookup_fired fruit_options navigated ''ban'') = Inr [ArrayRead]"
proof -
  have o: "\<exists>le srt. sorter fruit_options = Some srt \<and> orders le srt"
    using orders_sort_items by (auto simp: fruit_options_def default_options_def)
  have h: "term looked \<noteq> []" "fruit \<noteq> []"
    "sorter fruit_options = None \<or> (\<exists>le srt. sorter fruit_options = Some srt \<and> orders le srt)"
    using o by (simp_all add: looked_def initial_def fruit_def)
  have f: "term looked = ''ban''" "items rendered = [''banana'', ''bandana'']"
    "accessed rendered = [ArrayRead]" "accessed navigated = [ArrayRead]"
    "cache navigated ''ban'' = cache rendered ''ban''"
    by (simp_all add: looked_def rendered_def navigated_def initial_def)
  note T = repeated_lookup_uses_cache[OF h, unfolded process_looked f(1)]
  from T have A: "cache rendered ''ban'' = Some [''banana'', ''bandana'']"
    using f(2) by simp
  from T have B: "\<exists>s'. lookup_fired fruit_options rendered ''ban'' = Inr s'
             \<and> items s' = items rendered \<and> rows s' = rows rendered
             \<and> accessed s' = accessed rendered"
    by blast
  from T f(5) have C: "\<exists>s'. lookup_fired fruit_options navigated ''ban'' = Inr s'
             \<and> accessed s' = accessed navigated
             \<and> (items rendered \<noteq> [] \<longrightarrow> items s' = items rendered \<and> rows s' = rows rendered)"
    by blast
  have B': "after items (lookup_fired fruit_options rendered ''ban'') = Inr [''banana'', ''bandana'']"
    "after rows (lookup_fired fruit_options rendered ''ban'') = Inr (rows rendered)"
    "after accessed (lookup_fired fruit_options rendered ''ban'') = Inr [ArrayRead]"
    using B f by (auto simp: after_def)
  have C': "after items (lookup_fired fruit_options navigated ''ban'') = Inr [''banana'', ''bandana'']"
    "after accessed (lookup_fired fruit_options navigated ''ban'') = Inr [ArrayRead]"
    using C f by (auto simp: after_def)
  show ?thesis using o h(1,2) process_looked A B' C' f(5) by blast
qed

section \<open>Early returns, the timer and the source\<close>

text \<open>
  C5, as stated, in the state \<open>navigated\<close> (reached, for instance, when a term is looked
  up for the second time whose cached list is empty): \<^verbatim>\<open>process\<close> with an empty list
  leaves both items and the index \<open>1\<close> in place.
\<close>

theorem process_empty_counterexample:
  "items (process fruit_options navigated []) = [''banana'', ''bandana'']
   \<and> index (process fruit_options navigated []) = 1
   \<and> items (process fruit_options navigated []) \<noteq> []
   \<and> index (process fruit_options navigated []) \<noteq> -1"
  by (simp add: process_def hide_def navigated_def rendered_def looked_def initial_def)

text \<open>
  C5 (amended): whenever \<^verbatim>\<open>process\<close> runs with an empty current term or an empty raw
  list, the dropdown is hidden and nothing else changes: the items, the index, the term
  and the cache keep their values.
\<close>

theorem process_empty:
  assumes "term st = [] \<or> raw = []"
  shows "process opts st raw = hide st
       \<and> process opts st raw = st\<lparr>visible := False\<rparr>
       \<and> \<not> isVisible (process opts st raw)
       \<and> items (process opts st raw) = items st
       \<and> index (process opts st raw) = index st
       \<and> term (process opts st raw) = term st
       \<and> cache (process opts st raw) = cache st"
  using assms by (auto simp: process_def hide_def isVisible_def)

theorem process_empty_witness:
  "process fruit_options navigated [] = navigated\<lparr>visible := False\<rparr>
   \<and> items (process fruit_options navigated []) = items navigated
   \<and> index (process fruit_options navigated []) = index navigated
   \<and> term (rendered\<lparr>term := []\<rparr>) = []
   \<and> process fruit_options (rendered\<lparr>term := []\<rparr>) fruit
       = rendered\<lparr>term := [], visible := False\<rparr>"
proof -
  have e: "term (rendered\<lparr>term := []\<rparr>) = []" by simp
  from process_empty[of navigated "[]" fruit_options]
    process_empty[of "rendered\<lparr>term := []\<rparr>" fruit fruit_options]
  show ?thesis using e by blast
qed

text \<open>
  C9: when the trimmed value of the input is shorter than \<^verbatim>\<open>minLength\<close>, no key makes
  \<^verbatim>\<open>_lookup\<close> schedule a lookup: no timer is added, the term is not stored. A key that
  reaches the lookup path (any key but up, down, esc, tab and enter, which \<^verbatim>\<open>_cycle\<close>
  handles and \<^verbatim>\<open>_lookup\<close> ignores) clears the pending timer and hides the dropdown.
\<close>

theorem short_term_not_looked_up:
  assumes "int (length (trim (input_value st))) < minLength opts"
  shows "\<exists>st'. lookup_keyup opts st k = Inr st'
           \<and> set (pending st') \<subseteq> set (pending st) \<and> next_timer st' = next_timer st
           \<and> timer st' = timer st \<and> term st' = term st
           \<and> (k \<in> {Up, Down, Esc, Tab, Enter} \<longrightarrow> st' = st)
           \<and> (k \<notin> {Up, Down, Esc, Tab, Enter} \<longrightarrow>
                 \<not> isVisible st' \<and> st' = (clearTimeout (timer st) st)\<lparr>visible := False\<rparr>)"
  using assms
  by (auto simp: lookup_keyup_def Let_def hide_def clearTimeout_def isVisible_def
      split: option.splits)

theorem short_term_not_looked_up_witness:
  "int (length (trim (input_value waiting))) < minLength patient
   \<and> pending waiting = [(0, ''app'')]
   \<and> lookup_keyup patient waiting OtherKey = Inr (waiting\<lparr>pending := [], visible := False\<rparr>)
   \<and> lookup_keyup patient waiting Down = Inr waiting"
proof -
  have h: "int (length (trim (input_value waiting))) < minLength patient"
    by (simp add: waiting_def setTimeout_def initial_def trim_def is_space_def patient_def
        default_options_def)
  have p: "pending waiting = [(0, ''app'')]" "timer waiting = Some 0"
    by (simp_all add: waiting_def setTimeout_def initial_def)
  from short_term_not_looked_up[OF h, of OtherKey] short_term_not_looked_up[OF h, of Down]
  show ?thesis using h p by (auto simp: clearTimeout_def)
qed

text \<open>
  C7, as stated, at a source that is no array, string or function: the call of
  \<^verbatim>\<open>lookup\<close> returns, with the timer scheduled, and throws nothing.
\<close>

theorem invalid_source_counterexample:
  "source invalid_options = SrcOther
   \<and> lookup invalid_options initial ''a'' = Inr (setTimeout ''a'' (initial\<lparr>term := ''a''\<rparr>))
   \<and> lookup invalid_options initial ''a'' \<noteq> Inl InvalidSourceType"
  by (simp add: invalid_options_def lookup_def)

text \<open>
  C7 (amended): for a source that is no array, string or function and any term, the call
  of \<^verbatim>\<open>lookup\<close> returns, having stored the term and scheduled the timer and changed
  nothing else that is shown; the closure of the timer throws the error of the invalid
  source type when it runs and the test of the cache fails for the term, that is, when
  no list has been stored under the term and the term does not name a property that
  the cache object inherits.
\<close>

theorem invalid_source_throws_in_timer:
  assumes "source opts = SrcOther"
  shows "\<exists>st'. lookup opts st t = Inr st' \<and> term st' = t
           \<and> timer st' = Some (next_timer st)
           \<and> pending st' = pending st @ [(next_timer st, t)]
           \<and> cache st' = cache st \<and> visible st' = visible st \<and> items st' = items st
           \<and> (cache_hit st t = None \<longrightarrow>
                 lookup_timeout opts st' t = Inl InvalidSourceType
               \<and> lookup_fired opts st t = Inl InvalidSourceType)"
proof -
  let ?st = "setTimeout t (st\<lparr>term := t\<rparr>)"
  have "cache_hit ?st = cache_hit st"
    "cache_hit (clearTimeout (timer ?st) ?st) = cache_hit st"
    by (rule cache_hit_cong; simp add: setTimeout_def clearTimeout_def)+
  then have h: "cache_hit ?st t = cache_hit st t"
    "cache_hit (clearTimeout (timer ?st) ?st) t = cache_hit st t"
    by simp_all
  have "cache_hit st t = None \<longrightarrow>
          lookup_timeout opts ?st t = Inl InvalidSourceType
        \<and> lookup_fired opts st t = Inl InvalidSourceType"
    using assms h by (simp add: lookup_timeout_def lookup_fired_def lookup_def)
  then show ?thesis by (simp add: lookup_def setTimeout_def)
qed

theorem invalid_source_throws_in_timer_witness:
  "source invalid_options = SrcOther \<and> cache_hit initial ''a'' = None
   \<and> lookup_timeout invalid_options (setTimeout ''a'' (initial\<lparr>term := ''a''\<rparr>)) ''a''
        = Inl InvalidSourceType
   \<and> lookup_fired invalid_options initial ''a'' = Inl InvalidSourceType"
proof -
  have h: "source invalid_options = SrcOther" by (simp add: invalid_options_def)
  have c: "cache_hit initial ''a'' = None" by (simp add: initial_def cache_simps)
  from invalid_source_throws_in_timer[OF h, of initial "''a''"] show ?thesis
    using h c by (simp add: lookup_def)
qed

text \<open>
  C8, as stated, at two source functions. \<open>wants_term\<close> would answer with an item if it
  were given the term as an argument; it is called without arguments, answers with a
  falsy value, and nothing is rendered. \<open>fruit_source\<close> answers with the empty array for
  \<^verbatim>\<open>band\<close> while the dropdown is open; \<^verbatim>\<open>process\<close> is called with it and hides the
  dropdown.
\<close>

theorem function_source_counterexample:
  "wants_term [Str ''ban'', Widget (looked\<lparr>accessed := []\<rparr>)] (looked\<lparr>accessed := []\<rparr>)
     = Items [''banana'']
   \<and> lookup_fired (default_options\<lparr>source := SrcFunction wants_term\<rparr>) typed ''ban''
        = Inr (looked\<lparr>accessed := [FunctionCall]\<rparr>)
   \<and> cache answered ''band'' = None \<and> isVisible answered
   \<and> fruit_source [] (answered\<lparr>term := ''band''\<rparr>) = Items []
   \<and> after visible (lookup_fired asking answered ''band'') = Inr False"
  by (simp add: wants_term_def fruit_source_def asking_def lookup_timeout_def attempt_def
      lookup_fired_def lookup_def setTimeout_def clearTimeout_def answered_def rendered_def
      looked_def typed_def initial_def after_def process_def hide_def isVisible_def
      cache_simps)

text \<open>
  C8 (amended): when the source is a function and the test of the cache fails for the
  term (no list has been stored under it and it does not name a property that the cache
  object inherits), the closure of the timer calls the function with no argument and
  the widget as \<^verbatim>\<open>this\<close>. When the function throws or answers with a falsy value,
  nothing changes but the log of accesses. When it answers with the empty array,
  \<^verbatim>\<open>process\<close> is called with it and hides the dropdown and changes nothing else. Any
  other array is given to \<^verbatim>\<open>process\<close>.
\<close>

theorem function_source:
  assumes "source opts = SrcFunction f" "cache_hit st t = None"
  shows "lookup_timeout opts st t =
           (case f [] st of
              Items xs \<Rightarrow> Inr (process opts (st\<lparr>accessed := accessed st @ [FunctionCall]\<rparr>) xs)
            | Falsy \<Rightarrow> Inr (st\<lparr>accessed := accessed st @ [FunctionCall]\<rparr>)
            | Throws \<Rightarrow> Inr (st\<lparr>accessed := accessed st @ [FunctionCall]\<rparr>))
       \<and> (f [] st = Items [] \<longrightarrow>
            lookup_timeout opts st t
              = Inr (st\<lparr>accessed := accessed st @ [FunctionCall], visible := False\<rparr>))"
  using assms
  by (auto simp: lookup_timeout_def attempt_def Let_def process_def hide_def
      split: response.splits)

theorem function_source_witness:
  "source asking = SrcFunction fruit_source
   \<and> cache_hit (answered\<lparr>term := ''band''\<rparr>) ''band'' = None
   \<and> fruit_source [] (answered\<lparr>term := ''band''\<rparr>) = Items []
   \<and> lookup_timeout asking (answered\<lparr>term := ''band''\<rparr>) ''band''
        = Inr (answered\<lparr>term := ''band'', accessed := [FunctionCall, FunctionCall],
                        visible := False\<rparr>)
   \<and> lookup_timeout (default_options\<lparr>source := SrcFunction (\<lambda>args this. Throws)\<rparr>)
        (answered\<lparr>term := ''band''\<rparr>) ''band''
        = Inr (answered\<lparr>term := ''band'', accessed := [FunctionCall, FunctionCall]\<rparr>)"
proof -
  have s: "source asking = SrcFunction fruit_source" by (simp add: asking_def)
  have c: "cache_hit (answered\<lparr>term := ''band''\<rparr>) ''band'' = None"
    "accessed (answered\<lparr>term := ''band''\<rparr>) = [FunctionCall]"
    by (simp_all add: answered_def rendered_def looked_def initial_def cache_simps)
  have n: "fruit_source [] (answered\<lparr>term := ''band''\<rparr>) = Items []"
    by (simp add: fruit_source_def)
  from function_source[OF s c(1)]
    function_source[of "default_options\<lparr>source := SrcFunction (\<lambda>args this. Throws)\<rparr>"
      "\<lambda>args this. Throws", OF _ c(1)]
  show ?thesis using s c n by (simp add: process_def hide_def)
qed

text \<open>
  The terms for which the test of the cache succeeds with nothing stored, in the example
  states: the names of the methods of \<^verbatim>\<open>Object.prototype\<close>. \<^verbatim>\<open>constructor\<close> is a
  function of one parameter, with which the sorter is called and throws; \<^verbatim>\<open>toString\<close>
  has no parameter and \<^verbatim>\<open>__proto__\<close> is an object without a length, and \<^verbatim>\<open>process\<close>
  hides the dropdown and returns. The source is not looked at, whatever its type.
\<close>

lemma inherited_terms:
  "cache_hit initial ''constructor'' = Some (PFunction 1)"
  "cache_hit initial ''toString'' = Some (PFunction 0)"
  "cache_hit initial ''__proto__'' = Some PObject"
  "lookup_fired invalid_options initial ''constructor'' = Inl TypeError"
  "after visible (lookup_fired invalid_options initial ''toString'') = Inr False"
  "after visible (lookup_fired invalid_options initial ''__proto__'') = Inr False"
  "lookup_fired asking initial ''constructor'' = Inl TypeError"
  "after accessed (lookup_fired asking answered ''toString'') = Inr [FunctionCall]"
  "after visible (lookup_fired asking answered ''toString'') = Inr False"
  by (simp_all add: lookup_fired_def lookup_def setTimeout_def clearTimeout_def
      lookup_timeout_def process_any_def cache_simps hide_def after_def initial_def
      invalid_options_def asking_def default_options_def answered_def rendered_def looked_def)

section \<open>Highlighting and stripping\<close>

text \<open>
  \<^verbatim>\<open>highlight\<close> replaces the matches of one sub-term after the other, each pass over the
  output of the pass before it. The first pass turns the item into a marked string over
  the item; a later pass, whose sub-term is harmless, finds its matches in the text only,
  never inside a marker, and keeps the string marked over the same item, also when it wraps
  text that an earlier pass has wrapped. Stripping a marked string over a text without
  markers gives the text.
\<close>

lemma starts_with_append: "starts_with p (p @ r)"
  by (induction p) auto

lemma starts_with_iff: "starts_with p s \<longleftrightarrow> (\<exists>r. s = p @ r)"
proof (induction p s rule: starts_with.induct)
  case (1 s) show ?case by simp
next
  case (2 p ps) show ?case by simp
next
  case (3 p ps c cs) then show ?case by auto
qed

lemma starts_with_length: "starts_with p s \<Longrightarrow> length p \<le> length s"
  by (auto simp: starts_with_iff)

lemma starts_with_extend: "starts_with p s \<Longrightarrow> starts_with p (s @ r)"
  by (auto simp: starts_with_iff)

lemma open_marker_shape: "\<exists>w. open_marker = CHR ''<'' # w \<and> CHR ''<'' \<notin> set w"
  by (simp add: open_marker_def)

lemma close_marker_shape: "\<exists>w. close_marker = CHR ''<'' # w \<and> CHR ''<'' \<notin> set w"
  by (simp add: close_marker_def)

lemma marker_shape: "is_marker m \<Longrightarrow> \<exists>w. m = CHR ''<'' # w \<and> CHR ''<'' \<notin> set w"
  using open_marker_shape close_marker_shape by (auto simp: is_marker_def)

lemma marker_end: "is_marker m \<Longrightarrow> \<exists>w. m = w @ [CHR ''>'']"
  by (auto simp: is_marker_def open_marker_def close_marker_def)

lemma open_not_close: "\<not> starts_with open_marker (close_marker @ r)"
  by (simp add: open_marker_def close_marker_def)

lemma strip_markers_unfold:
  "s \<noteq> [] \<Longrightarrow> strip_markers s =
     (if starts_with open_marker s then strip_markers (drop (length open_marker) s)
      else if starts_with close_marker s then strip_markers (drop (length close_marker) s)
      else hd s # strip_markers (tl s))"
  by (cases s) simp_all

lemma markers_nonempty: "open_marker \<noteq> []" "close_marker \<noteq> []"
  by (simp_all add: open_marker_def close_marker_def)

lemma strip_open: "strip_markers (open_marker @ r) = strip_markers r"
  using strip_markers_unfold[of "open_marker @ r"] markers_nonempty
  by (simp add: starts_with_append)

lemma strip_close: "strip_markers (close_marker @ r) = strip_markers r"
  using strip_markers_unfold[of "close_marker @ r"] markers_nonempty
  by (simp add: starts_with_append open_not_close)

lemma strip_marker: "is_marker m \<Longrightarrow> strip_markers (m @ r) = strip_markers r"
  by (auto simp: is_marker_def strip_open strip_close)

lemma strip_other:
  "\<not> starts_with open_marker (c # cs) \<Longrightarrow> \<not> starts_with close_marker (c # cs)
     \<Longrightarrow> strip_markers (c # cs) = c # strip_markers cs"
  by simp

declare strip_markers.simps(2) [simp del]

lemma marked_refl: "marked s s"
  by (induction s) (auto intro: marked.intros)

lemma marked_append: "marked s t \<Longrightarrow> marked (u @ s) (u @ t)"
  by (induction u) (auto intro: marked.intros)

lemma marked_wrap:
  "marked s t \<Longrightarrow> marked (open_marker @ u @ close_marker @ s) (u @ t)"
  by (intro marked_marker marked_append) (simp_all add: is_marker_def)

text \<open>A marked string whose first character is not \<open><\<close> starts with a character of the text.\<close>

lemma marked_ConsE:
  assumes "marked (c # s) t" "c \<noteq> CHR ''<''"
  obtains t' where "t = c # t'" "marked s t'"
proof -
  from assms(1) show ?thesis
    by (rule marked.cases) (use that assms(2) in \<open>auto dest: marker_shape\<close>)
qed

lemma marked_NilE: "marked [] t \<Longrightarrow> t = []"
  by (erule marked.cases) (auto dest: marker_shape)

lemma starts_text:
  "marked s t \<Longrightarrow> CHR ''<'' \<notin> set w \<Longrightarrow> starts_with w s \<Longrightarrow> starts_with w t"
proof (induction w arbitrary: s t)
  case Nil
  then show ?case by simp
next
  case (Cons x w)
  then obtain cs where s: "s = x # cs" "starts_with w cs" by (cases s) auto
  have "x \<noteq> CHR ''<''" using Cons.prems(2) by auto
  with Cons.prems(1) s obtain t' where "t = x # t'" "marked cs t'"
    by (auto elim: marked_ConsE)
  then show ?case using Cons.IH[of cs t'] Cons.prems(2) s by simp
qed

lemma strip_marked: "marked s t \<Longrightarrow> marker_free t \<Longrightarrow> strip_markers s = t"
proof (induction rule: marked.induct)
  case marked_Nil
  then show ?case by simp
next
  case (marked_Cons s t c)
  have f: "\<not> starts_with open_marker (c # t)" "\<not> starts_with close_marker (c # t)"
    "marker_free t"
    using marked_Cons.prems by (simp_all add: marker_free_def)
  have n: "\<not> starts_with m (c # s)" if m: "is_marker m" for m
  proof
    assume a: "starts_with m (c # s)"
    obtain w where w: "m = CHR ''<'' # w" "CHR ''<'' \<notin> set w" using marker_shape[OF m] by blast
    from a w have c: "c = CHR ''<''" and "starts_with w s" by auto
    then have "starts_with w t" using starts_text[OF marked_Cons.hyps] w(2) by blast
    then have "starts_with m (c # t)" using w c by simp
    then show False using f m by (auto simp: is_marker_def)
  qed
  have "strip_markers (c # s) = c # strip_markers s"
    using n by (intro strip_other) (simp_all add: is_marker_def)
  then show ?case using marked_Cons.IH[OF f(3)] by simp
next
  case (marked_marker m s t)
  then show ?case by (simp add: strip_marker)
qed

text \<open>Letter case leaves \<open><\<close> and \<open>>\<close> alone and turns no character into one of them.\<close>

lemma of_char_lower:
  "(of_char (lower c) :: nat) =
     (if 65 \<le> (of_char c :: nat) \<and> (of_char c :: nat) \<le> 90 then of_char c + 32 else of_char c)"
  by (simp add: lower_def)

lemma lower_angle:
  "lower c = CHR ''<'' \<longleftrightarrow> c = CHR ''<''" "lower c = CHR ''>'' \<longleftrightarrow> c = CHR ''>''"
proof -
  have a: "lower c = d \<longleftrightarrow> (of_char (lower c) :: nat) = of_char d" for d by simp
  have b: "c = d \<longleftrightarrow> (of_char c :: nat) = of_char d" for d by simp
  show "lower c = CHR ''<'' \<longleftrightarrow> c = CHR ''<''"
    unfolding a b of_char_lower by auto
  show "lower c = CHR ''>'' \<longleftrightarrow> c = CHR ''>''"
    unfolding a b of_char_lower by auto
qed

lemma angle_toLowerCase:
  "CHR ''<'' \<in> set (toLowerCase p) \<longleftrightarrow> CHR ''<'' \<in> set p"
  "CHR ''>'' \<in> set (toLowerCase p) \<longleftrightarrow> CHR ''>'' \<in> set p"
  by (auto simp: toLowerCase_def image_iff) (metis lower_angle)+

text \<open>A match that begins in the text of a marked string and holds no \<open><\<close> lies in the text.\<close>

lemma match_text:
  "marked s t \<Longrightarrow> CHR ''<'' \<notin> set q \<Longrightarrow> starts_with (toLowerCase q) (toLowerCase s)
     \<Longrightarrow> \<exists>t'. t = take (length q) s @ t' \<and> marked (drop (length q) s) t'"
proof (induction q arbitrary: s t)
  case Nil
  then show ?case by simp
next
  case (Cons x q)
  then obtain c cs where s: "s = c # cs" "lower x = lower c"
    "starts_with (toLowerCase q) (toLowerCase cs)"
    by (cases s) (auto simp: toLowerCase_def)
  have "x \<noteq> CHR ''<''" using Cons.prems(2) by auto
  then have "c \<noteq> CHR ''<''" using s(2) lower_angle(1) by metis
  with Cons.prems(1) s(1) obtain t0 where t: "t = c # t0" "marked cs t0"
    by (auto elim: marked_ConsE)
  from Cons.IH[OF t(2) _ s(3)] Cons.prems(2)
  obtain t' where "t0 = take (length q) cs @ t'" "marked (drop (length q) cs) t'" by auto
  then show ?case using s(1) t(1) by simp
qed

lemma starts_with_append_cases:
  "starts_with x (b @ r) \<Longrightarrow> starts_with x b \<or> (\<exists>y. x = b @ y)"
proof (induction b arbitrary: x)
  case Nil
  then show ?case by simp
next
  case (Cons c b)
  then show ?case by (cases x) auto
qed

lemma occurs_suffix: "starts_with x b \<Longrightarrow> occurs x (a @ b)"
proof (induction a)
  case Nil
  then show ?case by (cases b) (auto simp: starts_with_iff)
next
  case (Cons c a)
  then show ?case by simp
qed

text \<open>A harmless sub-term matches at no character of a marker.\<close>

lemma no_match_in_marker:
  assumes "harmless p" "is_marker m" "m = a @ b" "b \<noteq> []"
  shows "\<not> matches_at p (b @ r)"
proof
  assume "matches_at p (b @ r)"
  then have "starts_with (toLowerCase p) (toLowerCase b @ toLowerCase r)"
    by (simp add: matches_at_def toLowerCase_def)
  then consider "starts_with (toLowerCase p) (toLowerCase b)"
    | y where "toLowerCase p = toLowerCase b @ y"
    using starts_with_append_cases by blast
  then show False
  proof cases
    case 1
    then have "occurs (toLowerCase p) (toLowerCase a @ toLowerCase b)" by (rule occurs_suffix)
    then have "occurs (toLowerCase p) (toLowerCase m)"
      using assms(3) by (simp add: toLowerCase_def)
    then show False using assms(1,2) by (auto simp: harmless_def is_marker_def)
  next
    case 2
    obtain w where "m = w @ [CHR ''>'']" using marker_end[OF assms(2)] by blast
    then have "last b = CHR ''>''" using assms(3,4) by (metis last_appendR last_snoc)
    then have "CHR ''>'' \<in> set b" using assms(4) by (metis last_in_set)
    then have "CHR ''>'' \<in> set (toLowerCase b)" by (simp add: angle_toLowerCase)
    then have "CHR ''>'' \<in> set (toLowerCase p)" using 2 by simp
    then show False using assms(1) by (simp add: angle_toLowerCase harmless_def)
  qed
qed

lemma replace_unmatched:
  "(\<And>a b. m = a @ b \<Longrightarrow> b \<noteq> [] \<Longrightarrow> \<not> matches_at p (b @ r))
     \<Longrightarrow> replace_matches p (m @ r) = m @ replace_matches p r"
proof (induction m)
  case Nil
  then show ?case by simp
next
  case (Cons c m)
  have "\<not> matches_at p ((c # m) @ r)" using Cons.prems[of "[]" "c # m"] by simp
  moreover have "replace_matches p (m @ r) = m @ replace_matches p r"
  proof (rule Cons.IH)
    fix a b assume "m = a @ b" "b \<noteq> []"
    then show "\<not> matches_at p (b @ r)" using Cons.prems[of "c # a" b] by simp
  qed
  ultimately show ?case by simp
qed

lemma replace_marker:
  "harmless p \<Longrightarrow> is_marker m \<Longrightarrow> replace_matches p (m @ r) = m @ replace_matches p r"
  by (rule replace_unmatched) (rule no_match_in_marker)

text \<open>The first replacement marks the item; a harmless one keeps a marked string marked.\<close>

lemma marked_first: "marked (replace_matches p s) s"
proof (induction p s rule: replace_matches.induct)
  case (1 p)
  show ?case by (simp add: marked_Nil)
next
  case (2 p c cs)
  show ?case
  proof (cases "matches_at p (c # cs)")
    case True
    have "marked (open_marker @ take (length p) (c # cs) @ close_marker
            @ replace_matches p (drop (length p) (c # cs)))
          (take (length p) (c # cs) @ drop (length p) (c # cs))"
      using "2.IH"(1)[OF True] by (rule marked_wrap)
    then show ?thesis using True by simp
  next
    case False
    then show ?thesis using "2.IH"(2) by (simp add: marked_Cons)
  qed
qed

lemma marked_replace:
  assumes "marked s t" "harmless p"
  shows "marked (replace_matches p s) t"
  using assms
proof (induction "length s" arbitrary: s t rule: less_induct)
  case less
  from less.prems(1) show ?case
  proof (rule marked.cases)
    assume "s = []" "t = []"
    then show ?thesis by (simp add: marked_Nil)
  next
    fix s0 t0 c
    assume e: "s = c # s0" "t = c # t0" and m: "marked s0 t0"
    show ?thesis
    proof (cases "matches_at p s")
      case True
      have lt: "CHR ''<'' \<notin> set p" using less.prems(2) by (simp add: harmless_def)
      have p: "p \<noteq> []" "starts_with (toLowerCase p) (toLowerCase s)"
        using True by (simp_all add: matches_at_def)
      from match_text[OF less.prems(1) lt p(2)] obtain t' where
        t': "t = take (length p) s @ t'" "marked (drop (length p) s) t'" by blast
      have "length (drop (length p) s) < length s" using p(1) e(1) by simp
      then have "marked (replace_matches p (drop (length p) s)) t'"
        using less.hyps t'(2) less.prems(2) by blast
      then have "marked (open_marker @ take (length p) s @ close_marker
                   @ replace_matches p (drop (length p) s)) (take (length p) s @ t')"
        by (rule marked_wrap)
      then show ?thesis using True e(1) t'(1) by simp
    next
      case False
      have "marked (replace_matches p s0) t0"
        using less.hyps[of s0 t0] m less.prems(2) e(1) by simp
      then show ?thesis using False e by (simp add: marked_Cons)
    qed
  next
    fix m s' t'
    assume e: "s = m @ s'" and "t = t'" and i: "is_marker m" and "marked s' t'"
    then have m: "marked s' t" by simp
    have "m \<noteq> []" using marker_shape[OF i] by auto
    then have "marked (replace_matches p s') t"
      using less.hyps[of s' t] m less.prems(2) e by simp
    then show ?thesis
      using e i less.prems(2) by (simp add: replace_marker marked_marker)
  qed
qed

lemma marked_replace_all:
  "marked s t \<Longrightarrow> \<forall>p \<in> set ps. harmless p
     \<Longrightarrow> marked (foldl (\<lambda>s p. replace_matches p s) s ps) t"
  by (induction ps arbitrary: s) (simp_all add: marked_replace)

text \<open>
  Escaping and splitting commute, and the pattern built from an escaped piece of the
  term matches that piece, letter for letter: \<^verbatim>\<open>highlight\<close> replaces the matches of the
  sub-terms of the term, one sub-term after the other.
\<close>

lemma split_space_nonempty: "split_space s \<noteq> []"
  by (induction s) (auto split: list.splits)

lemma escape_Cons:
  "escape (c # t) = (if c \<in> set metachars then [backslash, c] else [c]) @ escape t"
  by (simp add: escape_def)

lemma escape_Nil_iff: "escape t = [] \<longleftrightarrow> t = []"
  by (cases t) (simp_all add: escape_def)

lemma space_not_meta: "CHR '' '' \<notin> set metachars" "backslash \<noteq> CHR '' ''"
  by (simp_all add: metachars_def backslash_def)

lemma backslash_meta: "backslash \<in> set metachars"
  by (simp add: metachars_def)

lemma split_space_escape: "split_space (escape t) = map escape (split_space t)"
proof (induction t)
  case Nil
  then show ?case by (simp add: escape_def)
next
  case (Cons c t)
  obtain q qs where q: "split_space t = q # qs"
    using split_space_nonempty[of t] by (cases "split_space t") auto
  show ?case
  proof (cases "c = CHR '' ''")
    case True
    then show ?thesis using Cons space_not_meta by (simp add: escape_Cons) (simp add: escape_def)
  next
    case False
    then show ?thesis using Cons q space_not_meta by (simp add: escape_Cons)
  qed
qed

lemma regexp_literal_escape: "regexp_literal (escape t) = t"
proof (induction t)
  case Nil
  then show ?case by (simp add: escape_def)
next
  case (Cons c t)
  show ?case
  proof (cases "c \<in> set metachars")
    case True
    then show ?thesis using Cons by (simp add: escape_Cons)
  next
    case False
    then have "c \<noteq> backslash" using backslash_meta by auto
    then show ?thesis using False Cons by (cases "escape t") (simp_all add: escape_Cons)
  qed
qed

lemma highlight_loop_escape:
  "highlight_loop (map escape ps) item
     = foldl (\<lambda>s p. replace_matches p s) item (takeWhile (\<lambda>p. p \<noteq> []) ps)"
  by (induction ps arbitrary: item) (simp_all add: escape_Nil_iff regexp_literal_escape)

lemma highlight_sub_terms:
  "highlight st item = foldl (\<lambda>s p. replace_matches p s) item (sub_terms (term st))"
  by (simp add: highlight_def split_space_escape highlight_loop_escape sub_terms_def)

text \<open>
  C4 (amended): for every item that contains neither marker and every term whose
  sub-terms after the first are harmless (no \<open><\<close>, no \<open>>\<close>, no occurrence, letter case
  ignored, in either marker), stripping the markers from the highlighted item gives back
  the item. The term may have any number of sub-terms, and a later sub-term may wrap text
  that an earlier one has wrapped.
\<close>

theorem highlight_roundtrip:
  assumes "marker_free item" "\<forall>p \<in> set (tl (sub_terms (term st))). harmless p"
  shows "strip_markers (highlight st item) = item"
proof -
  have "marked (highlight st item) item"
  proof (cases "sub_terms (term st)")
    case Nil
    then show ?thesis by (simp add: highlight_sub_terms marked_refl)
  next
    case (Cons p ps)
    have "marked (foldl (\<lambda>s p. replace_matches p s) (replace_matches p item) ps) item"
      using marked_first assms(2) Cons by (intro marked_replace_all) simp_all
    then show ?thesis by (simp add: highlight_sub_terms Cons)
  qed
  then show ?thesis using assms(1) by (rule strip_marked)
qed

text \<open>
  C4, as stated, at two inputs. An item that contains a marker of its own loses it: no
  match, so \<^verbatim>\<open>highlight\<close> returns the item \<^verbatim>\<open></span>\<close>, and stripping leaves nothing.
  With the term \<^verbatim>\<open>a s\<close> the second sub-term matches inside the markers the first has
  put round \<^verbatim>\<open>a\<close>; stripping removes the markers of the second pass and leaves those
  of the first.
\<close>

theorem highlight_roundtrip_counterexample:
  \<open>highlight (initial\<lparr>term := ''x''\<rparr>) ''</span>'' = ''</span>''
   \<and> strip_markers (highlight (initial\<lparr>term := ''x''\<rparr>) ''</span>'') = []
   \<and> strip_markers (highlight (initial\<lparr>term := ''x''\<rparr>) ''</span>'') \<noteq> ''</span>''
   \<and> strip_markers (highlight (initial\<lparr>term := ''a s''\<rparr>) ''a'') = ''<span class="highlight">a</span>''
   \<and> strip_markers (highlight (initial\<lparr>term := ''a s''\<rparr>) ''a'') \<noteq> ''a''\<close>
  by (simp add: initial_def eval_simps strip_markers.simps(2))

text \<open>
  C4 (amended) at three inputs: the term \<^verbatim>\<open>new york\<close> on the item \<^verbatim>\<open>New York\<close>, two
  sub-terms that match side by side; the term \<^verbatim>\<open>new ne\<close> on the item \<^verbatim>\<open>New\<close>, where the
  second sub-term wraps text inside the markers of the first; and the term \<^verbatim>\<open>an\<close> on the
  item \<^verbatim>\<open>Banana\<close>, one sub-term that matches twice.
\<close>

theorem highlight_roundtrip_witness:
  \<open>marker_free ''New York''
   \<and> sub_terms (term (initial\<lparr>term := ''new york''\<rparr>)) = [''new'', ''york'']
   \<and> harmless ''york''
   \<and> highlight (initial\<lparr>term := ''new york''\<rparr>) ''New York''
       = ''<span class="highlight">New</span> <span class="highlight">York</span>''
   \<and> strip_markers (highlight (initial\<lparr>term := ''new york''\<rparr>) ''New York'') = ''New York''
   \<and> marker_free ''New''
   \<and> sub_terms (term (initial\<lparr>term := ''new ne''\<rparr>)) = [''new'', ''ne'']
   \<and> harmless ''ne''
   \<and> highlight (initial\<lparr>term := ''new ne''\<rparr>) ''New''
       = ''<span class="highlight"><span class="highlight">Ne</span>w</span>''
   \<and> strip_markers (highlight (initial\<lparr>term := ''new ne''\<rparr>) ''New'') = ''New''
   \<and> marker_free ''Banana''
   \<and> highlight (initial\<lparr>term := ''an''\<rparr>) ''Banana''
       = ''B<span class="highlight">an</span><span class="highlight">an</span>a''
   \<and> strip_markers (highlight (initial\<lparr>term := ''an''\<rparr>) ''Banana'') = ''Banana''\<close>
proof -
  have m: "marker_free ''New York''" "marker_free ''New''" "marker_free ''Banana''"
    by (simp_all add: marker_free_def open_marker_def close_marker_def)
  have s: "sub_terms (term (initial\<lparr>term := ''new york''\<rparr>)) = [''new'', ''york'']"
    "sub_terms (term (initial\<lparr>term := ''new ne''\<rparr>)) = [''new'', ''ne'']"
    "sub_terms (term (initial\<lparr>term := ''an''\<rparr>)) = [''an'']"
    by (simp_all add: sub_terms_def)
  have h: "harmless ''york''" "harmless ''ne''"
    by (simp_all add: harmless_def eval_simps)
  have e: \<open>highlight (initial\<lparr>term := ''new york''\<rparr>) ''New York''
       = ''<span class="highlight">New</span> <span class="highlight">York</span>''\<close>
    \<open>highlight (initial\<lparr>term := ''new ne''\<rparr>) ''New''
       = ''<span class="highlight"><span class="highlight">Ne</span>w</span>''\<close>
    \<open>highlight (initial\<lparr>term := ''an''\<rparr>) ''Banana''
       = ''B<span class="highlight">an</span><span class="highlight">an</span>a''\<close>
    by (simp_all add: eval_simps)
  have a: "\<forall>p \<in> set (tl (sub_terms (term (initial\<lparr>term := ''new york''\<rparr>)))). harmless p"
    "\<forall>p \<in> set (tl (sub_terms (term (initial\<lparr>term := ''new ne''\<rparr>)))). harmless p"
    "\<forall>p \<in> set (tl (sub_terms (term (initial\<lparr>term := ''an''\<rparr>)))). harmless p"
    unfolding s using h by simp_all
  from highlight_roundtrip[OF m(1) a(1)] highlight_roundtrip[OF m(2) a(2)]
    highlight_roundtrip[OF m(3) a(3)]
  show ?thesis using m s(1,2) h e by blast
qed

end
